theory Spec2Isabelle
  imports Main "HOL-Library.AList" "HOL-Library.Sublist"
begin

section \<open>Python values\<close>

text \<open>
  A Python \<open>str\<close> is a sequence of Unicode code points. The repository's literals are
  Korean, so a string is modelled as the list of its code points; ASCII literals are
  written through \<open>ascii\<close>.
\<close>

type_synonym pystr = "nat list"

definition ascii :: "string \<Rightarrow> pystr" where
  "ascii s = map of_char s"

text \<open>\<open>str.isspace\<close> on one code point: the code points Python treats as whitespace.\<close>

definition isspace :: "nat \<Rightarrow> bool" where
  "isspace c \<longleftrightarrow>
     (0x09 \<le> c \<and> c \<le> 0x0D) \<or> (0x1C \<le> c \<and> c \<le> 0x20) \<or> c = 0x85 \<or> c = 0xA0 \<or>
     c = 0x1680 \<or> (0x2000 \<le> c \<and> c \<le> 0x200A) \<or> c = 0x2028 \<or> c = 0x2029 \<or>
     c = 0x202F \<or> c = 0x205F \<or> c = 0x3000"

text \<open>\<open>s.strip()\<close>: leading and trailing whitespace removed.\<close>

definition strip :: "pystr \<Rightarrow> pystr" where
  "strip s = rev (dropWhile isspace (rev (dropWhile isspace s)))"

text \<open>
  \<open>s.split()\<close>: the maximal runs of non-whitespace code points; \<open>cur\<close> is the run being
  read.
\<close>

fun split_from :: "pystr \<Rightarrow> pystr \<Rightarrow> pystr list" where
  "split_from cur [] = (if cur = [] then [] else [cur])"
| "split_from cur (c # cs) =
     (if isspace c then (if cur = [] then split_from [] cs else cur # split_from [] cs)
      else split_from (cur @ [c]) cs)"

definition split :: "pystr \<Rightarrow> pystr list" where
  "split s = split_from [] s"

text \<open>
  A \<open>dict\<close> keeps insertion order: an association list with distinct keys.
  \<open>d[k] = v\<close> replaces the value of a present key in place and appends a new key at
  the end, which is \<open>AList.update\<close>; \<open>k in d\<close> and \<open>d.get(k)\<close> read \<open>map_of\<close>.
\<close>

type_synonym 'v dict = "(pystr \<times> 'v) list"

definition dict_set :: "'v dict \<Rightarrow> pystr \<Rightarrow> 'v \<Rightarrow> 'v dict" where
  "dict_set d k v = AList.update k v d"

definition keys :: "'v dict \<Rightarrow> pystr list" where
  "keys d = map fst d"

text \<open>
  The exceptions that the modelled code can raise or meet. \<open>OtherException\<close> is any
  other instance of \<open>Exception\<close>, with its \<open>str(e)\<close>. \<open>SystemExit\<close> and
  \<open>KeyboardInterrupt\<close> are instances of \<open>BaseException\<close> only, so a clause
  \<open>except Exception\<close> does not catch them; \<open>is_exception e\<close> is
  \<open>isinstance(e, Exception)\<close>.
\<close>

datatype exn =
    ValueError pystr
  | KeyError pystr
  | AttributeError pystr
  | RuntimeError pystr
  | TimeoutError
  | OtherException pystr
  | SystemExit pystr
  | KeyboardInterrupt

fun is_exception :: "exn \<Rightarrow> bool" where
  "is_exception (SystemExit m) = False"
| "is_exception KeyboardInterrupt = False"
| "is_exception e = True"

text \<open>
  \<open>str(e)\<close>. A \<open>KeyError\<close> prints the repr of its key; a \<open>TimeoutError\<close> and a
  \<open>KeyboardInterrupt\<close> have no text.
\<close>

fun str_exn :: "exn \<Rightarrow> pystr" where
  "str_exn (ValueError m) = m"
| "str_exn (KeyError k) = [0x27] @ k @ [0x27]"
| "str_exn (AttributeError m) = m"
| "str_exn (RuntimeError m) = m"
| "str_exn TimeoutError = []"
| "str_exn (OtherException m) = m"
| "str_exn (SystemExit m) = m"
| "str_exn KeyboardInterrupt = []"

section \<open>Agent registry\<close>

text \<open>
  The literals of \<open>_create_agent_request\<close>. Every request starts with \<open>req_head\<close>
  ("jongmok ", i.e. "stock "); the catalogued requests continue with the stock code,
  \<open>" ("\<close>, the company name, \<open>")"\<close> and a sentence naming the analysis; the default
  request continues with the stock code and \<open>req_default\<close>.
\<close>

definition req_head :: pystr where
  "req_head = [0xC885, 0xBAA9, 0x20]"

definition req_context :: pystr where
  "req_context = [0xC5D0, 0x20, 0xB300, 0xD55C, 0x20, 0xC2DC, 0xC7A5, 0x20, 0xD658, 0xACBD,
     0x20, 0xBC0F, 0x20, 0xAC70, 0xC2DC, 0xACBD, 0xC81C, 0x20, 0xBD84, 0xC11D, 0xC744, 0x20,
     0xC218, 0xD589, 0xD574, 0xC8FC, 0xC138, 0xC694, 0x2E]"

definition req_sentiment :: pystr where
  "req_sentiment = [0xC5D0, 0x20, 0xB300, 0xD55C, 0x20, 0xB274, 0xC2A4, 0x20, 0xBC0F, 0x20,
     0xC2DC, 0xC7A5, 0x20, 0xC2EC, 0xB9AC, 0x20, 0xBD84, 0xC11D, 0xC744, 0x20, 0xC218, 0xD589,
     0xD574, 0xC8FC, 0xC138, 0xC694, 0x2E]"

definition req_financial :: pystr where
  "req_financial = [0xC5D0, 0x20, 0xB300, 0xD55C, 0x20, 0xC7AC, 0xBB34, 0xC81C, 0xD45C, 0x20,
     0xBC0F, 0x20, 0xAE30, 0xC5C5, 0x20, 0xBD84, 0xC11D, 0xC744, 0x20, 0xC218, 0xD589, 0xD574,
     0xC8FC, 0xC138, 0xC694, 0x2E]"

definition req_technical :: pystr where
  "req_technical = [0xC5D0, 0x20, 0xB300, 0xD55C, 0x20, 0xACE0, 0xAE09, 0x20, 0xAE30, 0xC220,
     0xC801, 0x20, 0xBD84, 0xC11D, 0xC744, 0x20, 0xC218, 0xD589, 0xD574, 0xC8FC, 0xC138, 0xC694,
     0x2E]"

definition req_institutional :: pystr where
  "req_institutional = [0xC5D0, 0x20, 0xB300, 0xD55C, 0x20, 0xAE30, 0xAD00, 0x20, 0xC218,
     0xAE09, 0x20, 0xBD84, 0xC11D, 0xC744, 0x20, 0xC218, 0xD589, 0xD574, 0xC8FC, 0xC138, 0xC694,
     0x2E]"

definition req_comparative :: pystr where
  "req_comparative = [0xC5D0, 0x20, 0xB300, 0xD55C, 0x20, 0xB3D9, 0xC885, 0xC5C5, 0xACC4, 0x20,
     0xC0C1, 0xB300, 0x20, 0xD3C9, 0xAC00, 0xB97C, 0x20, 0xC218, 0xD589, 0xD574, 0xC8FC, 0xC138,
     0xC694, 0x2E]"

definition req_esg :: pystr where
  "req_esg = [0xC5D0, 0x20, 0xB300, 0xD55C, 0x20, 0x45, 0x53, 0x47, 0x20, 0xBC0F, 0x20, 0xC9C0,
     0xC18D, 0xAC00, 0xB2A5, 0xC131, 0x20, 0xBD84, 0xC11D, 0xC744, 0x20, 0xC218, 0xD589, 0xD574,
     0xC8FC, 0xC138, 0xC694, 0x2E]"

definition req_community :: pystr where
  "req_community = [0xC5D0, 0x20, 0xB300, 0xD55C, 0x20, 0xCEE4, 0xBBA4, 0xB2C8, 0xD2F0, 0x20,
     0xC5EC, 0xB860, 0x20, 0xBD84, 0xC11D, 0xC744, 0x20, 0xC218, 0xD589, 0xD574, 0xC8FC, 0xC138,
     0xC694, 0x2E]"

definition req_default :: pystr where
  "req_default = [0xC5D0, 0x20, 0xB300, 0xD55C, 0x20, 0xBD84, 0xC11D, 0xC744, 0x20, 0xC218,
     0xD589, 0xD574, 0xC8FC, 0xC138, 0xC694, 0x2E]"

text \<open>The f-string shared by the eight catalogued requests.\<close>

definition request_for :: "pystr \<Rightarrow> pystr \<Rightarrow> pystr \<Rightarrow> pystr" where
  "request_for stock_code company_name sentence =
     req_head @ stock_code @ ascii '' ('' @ company_name @ ascii '')'' @ sentence"

definition base_requests :: "pystr \<Rightarrow> pystr \<Rightarrow> pystr dict" where
  "base_requests stock_code company_name =
     [(ascii ''context_expert'', request_for stock_code company_name req_context),
      (ascii ''sentiment_expert'', request_for stock_code company_name req_sentiment),
      (ascii ''financial_expert'', request_for stock_code company_name req_financial),
      (ascii ''advanced_technical_expert'', request_for stock_code company_name req_technical),
      (ascii ''institutional_trading_expert'',
         request_for stock_code company_name req_institutional),
      (ascii ''comparative_expert'', request_for stock_code company_name req_comparative),
      (ascii ''esg_expert'', request_for stock_code company_name req_esg),
      (ascii ''community_expert'', request_for stock_code company_name req_community)]"

text \<open>\<open>_create_agent_request\<close>: \<open>base_requests.get(agent_name, default)\<close>.\<close>

definition create_agent_request :: "pystr \<Rightarrow> pystr \<Rightarrow> pystr \<Rightarrow> pystr" where
  "create_agent_request agent_name stock_code company_name =
     (case map_of (base_requests stock_code company_name) agent_name of
        Some request \<Rightarrow> request
      | None \<Rightarrow> req_head @ stock_code @ req_default)"

definition completion_signals :: "pystr dict" where
  "completion_signals =
     [(ascii ''context_expert'', ascii ''MARKET_CONTEXT_ANALYSIS_COMPLETE''),
      (ascii ''sentiment_expert'', ascii ''SENTIMENT_ANALYSIS_COMPLETE''),
      (ascii ''financial_expert'', ascii ''FINANCIAL_ANALYSIS_COMPLETE''),
      (ascii ''advanced_technical_expert'', ascii ''ADVANCED_TECHNICAL_ANALYSIS_COMPLETE''),
      (ascii ''institutional_trading_expert'',
         ascii ''INSTITUTIONAL_TRADING_ANALYSIS_COMPLETE''),
      (ascii ''comparative_expert'', ascii ''COMPARATIVE_ANALYSIS_COMPLETE''),
      (ascii ''esg_expert'', ascii ''ESG_ANALYSIS_COMPLETE''),
      (ascii ''community_expert'', ascii ''COMMUNITY_ANALYSIS_COMPLETE'')]"

text \<open>\<open>_get_completion_signal\<close>: \<open>completion_signals.get(agent_name, "")\<close>.\<close>

definition get_completion_signal :: "pystr \<Rightarrow> pystr" where
  "get_completion_signal agent_name =
     (case map_of completion_signals agent_name of Some signal \<Rightarrow> signal | None \<Rightarrow> [])"

section \<open>Task executor\<close>

text \<open>
  What \<open>agent.invoke\<close> gives back. The last message either has a \<open>content\<close>
  attribute or is turned into text by \<open>str\<close>; the returned mapping may lack the
  \<open>'messages'\<close> key (\<open>None\<close>) or hold a list; the call may raise any exception.
  \<open>seconds\<close> is the wall-clock time the call takes.
\<close>

datatype message = ContentMessage pystr | PlainMessage pystr

fun message_text :: "message \<Rightarrow> pystr" where
  "message_text (ContentMessage c) = c"
| "message_text (PlainMessage s) = s"

datatype invoke_outcome = InvokeReturns "message list option" | InvokeRaises exn

record reply =
  outcome :: invoke_outcome
  seconds :: nat

type_synonym agent = "pystr \<Rightarrow> reply"

text \<open>The engine object: the loaded agents and \<open>agent_config\<close> (display name, priority).\<close>

record engine =
  agents :: "pystr \<rightharpoonup> agent"
  agent_config :: "(pystr \<times> nat) dict"

definition default_agent_config :: "(pystr \<times> nat) dict" where
  "default_agent_config =
     [(ascii ''context_expert'', ([0x1F30D, 0x20, 0xC2DC, 0xC7A5, 0xD658, 0xACBD], 1)),
      (ascii ''sentiment_expert'', ([0x1F4F0, 0x20, 0xB274, 0xC2A4, 0xBD84, 0xC11D], 1)),
      (ascii ''financial_expert'', ([0x1F4B0, 0x20, 0xC7AC, 0xBB34, 0xBD84, 0xC11D], 1)),
      (ascii ''advanced_technical_expert'',
         ([0x1F4C8, 0x20, 0xAE30, 0xC220, 0xBD84, 0xC11D], 2)),
      (ascii ''institutional_trading_expert'',
         ([0x1F3E2, 0x20, 0xC218, 0xAE09, 0xBD84, 0xC11D], 2)),
      (ascii ''comparative_expert'',
         ([0x2696, 0xFE0F, 0x20, 0xC0C1, 0xB300, 0xD3C9, 0xAC00], 3)),
      (ascii ''esg_expert'', ([0x1F331, 0x20, 0x45, 0x53, 0x47, 0xBD84, 0xC11D], 2)),
      (ascii ''community_expert'', ([0x1F4AC, 0x20, 0xCEE4, 0xBBA4, 0xB2C8, 0xD2F0], 3))]"

text \<open>
  The readings of \<open>datetime.now()\<close> are supplied by the environment, one per place and
  agent: at submission (\<open>start_time\<close>), in the worker (\<open>execution_time\<close>) and at
  collection (\<open>end_time\<close>).
\<close>

datatype event = Submitted pystr | Executed pystr | Collected pystr

text \<open>
  The environment of one run: the exception with which \<open>executor.submit\<close> fails for an
  agent, if it does (the pool starts its worker threads inside \<open>submit\<close>, and starting
  a thread can fail); the instant at which each agent's future completes, which fixes
  the order of \<open>as_completed\<close>; the clock.
\<close>

record env =
  submit_error :: "pystr \<Rightarrow> exn option"
  completion_rank :: "pystr \<Rightarrow> nat"
  clock :: "event \<Rightarrow> nat"

record task_result =
  agent_name :: pystr
  content :: pystr
  token_count :: nat
  execution_time :: nat
  result_status :: pystr

text \<open>The two error texts of the executor: "agent not found: " and "agent response is empty: ".\<close>

definition msg_not_found :: pystr where
  "msg_not_found = [0xC5D0, 0xC774, 0xC804, 0xD2B8, 0xB97C, 0x20, 0xCC3E, 0xC744, 0x20, 0xC218,
     0x20, 0xC5C6, 0xC74C, 0x3A, 0x20]"

definition msg_empty :: pystr where
  "msg_empty = [0xC5D0, 0xC774, 0xC804, 0xD2B8, 0x20, 0xC751, 0xB2F5, 0xC774, 0x20, 0xBE44,
     0xC5B4, 0xC788, 0xC74C, 0x3A, 0x20]"

text \<open>
  The completion-signal step of the executor (lines 210 to 212):
  \<^verbatim>\<open>if completion_signal and completion_signal not in content:
      content = content.strip() + f"\n\n{completion_signal}"\<close>
\<close>

definition add_completion_signal :: "pystr \<Rightarrow> pystr \<Rightarrow> pystr" where
  "add_completion_signal completion_signal output =
     (if completion_signal \<noteq> [] \<and> \<not> sublist completion_signal output
      then strip output @ [0x0A, 0x0A] @ completion_signal
      else output)"

text \<open>
  \<open>_execute_single_agent_with_context\<close>. Its \<open>except Exception\<close> clause logs and
  re-raises, and any other exception passes it, so every exception leaves the function
  as it is.
\<close>

definition execute_single_agent_with_context ::
  "engine \<Rightarrow> env \<Rightarrow> pystr \<Rightarrow> pystr \<Rightarrow> pystr \<Rightarrow> exn + task_result" where
  "execute_single_agent_with_context eng ev name stock_code company_name =
     (case agents eng name of
        None \<Rightarrow> Inl (ValueError (msg_not_found @ name))
      | Some agent \<Rightarrow>
          (let analysis_request = create_agent_request name stock_code company_name in
           case outcome (agent analysis_request) of
             InvokeRaises e \<Rightarrow> Inl e
           | InvokeReturns None \<Rightarrow> Inl (ValueError (msg_empty @ name))
           | InvokeReturns (Some []) \<Rightarrow> Inl (ValueError (msg_empty @ name))
           | InvokeReturns (Some (m # ms)) \<Rightarrow>
               (let content' = add_completion_signal (get_completion_signal name)
                                 (message_text (last (m # ms)))
                in Inr \<lparr>agent_name = name, content = content',
                         token_count = length (split content'),
                         execution_time = clock ev (Executed name),
                         result_status = ascii ''success''\<rparr>)))"

text \<open>The time the worker call of an agent runs: that of \<open>agent.invoke\<close>.\<close>

definition worker_seconds :: "engine \<Rightarrow> pystr \<Rightarrow> pystr \<Rightarrow> pystr \<Rightarrow> nat" where
  "worker_seconds eng name stock_code company_name =
     (case agents eng name of
        None \<Rightarrow> 0
      | Some agent \<Rightarrow> seconds (agent (create_agent_request name stock_code company_name)))"

section \<open>Run state\<close>

text \<open>
  The status strings \<open>'waiting'\<close>, \<open>'starting'\<close>, \<open>'running'\<close>, \<open>'completed'\<close> and
  \<open>'error'\<close> of a progress entry, and the entry itself.
\<close>

datatype status = Waiting | Starting | Running | Completed | Error

record task_progress =
  status :: status
  progress :: nat
  start_time :: "nat option"
  end_time :: "nat option"
  error :: "pystr option"

text \<open>
  The attributes of \<open>st.session_state\<close> that the parallel run uses; \<open>None\<close> is an
  attribute that is not set.
\<close>

record session_state =
  parallel_results :: "task_result dict option"
  parallel_progress :: "task_progress dict option"
  parallel_errors :: "pystr dict option"
  parallel_execution_started :: "bool option"
  parallel_execution_completed :: "bool option"
  current_analysis_type :: "pystr option"

text \<open>\<open>initialize_session_state\<close>: an attribute is set only when it is missing.\<close>

definition initialize_session_state :: "session_state \<Rightarrow> session_state" where
  "initialize_session_state s =
     (let s1 = (if parallel_results s = None then s\<lparr>parallel_results := Some []\<rparr> else s);
          s2 = (if parallel_progress s1 = None then s1\<lparr>parallel_progress := Some []\<rparr> else s1);
          s3 = (if parallel_errors s2 = None then s2\<lparr>parallel_errors := Some []\<rparr> else s2);
          s4 = (if parallel_execution_started s3 = None
                then s3\<lparr>parallel_execution_started := Some False\<rparr> else s3);
          s5 = (if parallel_execution_completed s4 = None
                then s4\<lparr>parallel_execution_completed := Some False\<rparr> else s4)
      in s5)"

text \<open>
  Single statements on the session state. Reading a missing attribute raises
  \<open>AttributeError\<close> (here with the attribute's name), reading a missing key raises
  \<open>KeyError\<close>; a statement that raises leaves the state as it was.
\<close>

definition progress_setitem ::
  "pystr \<Rightarrow> task_progress \<Rightarrow> session_state \<Rightarrow> exn + session_state" where
  "progress_setitem k v s =
     (case parallel_progress s of
        None \<Rightarrow> Inl (AttributeError (ascii ''parallel_progress''))
      | Some d \<Rightarrow> Inr (s\<lparr>parallel_progress := Some (dict_set d k v)\<rparr>))"

text \<open>
  \<open>st.session_state.parallel_progress[k].update(...)\<close> and
  \<open>st.session_state.parallel_progress[k][field] = v\<close>: the entry of \<open>k\<close> is changed in place.
\<close>

definition progress_entry_update ::
  "pystr \<Rightarrow> (task_progress \<Rightarrow> task_progress) \<Rightarrow> session_state \<Rightarrow> exn + session_state" where
  "progress_entry_update k f s =
     (case parallel_progress s of
        None \<Rightarrow> Inl (AttributeError (ascii ''parallel_progress''))
      | Some d \<Rightarrow>
          (case map_of d k of
             None \<Rightarrow> Inl (KeyError k)
           | Some p \<Rightarrow> Inr (s\<lparr>parallel_progress := Some (dict_set d k (f p))\<rparr>)))"

definition results_setitem ::
  "pystr \<Rightarrow> task_result \<Rightarrow> session_state \<Rightarrow> exn + session_state" where
  "results_setitem k v s =
     (case parallel_results s of
        None \<Rightarrow> Inl (AttributeError (ascii ''parallel_results''))
      | Some d \<Rightarrow> Inr (s\<lparr>parallel_results := Some (dict_set d k v)\<rparr>))"

definition errors_setitem ::
  "pystr \<Rightarrow> pystr \<Rightarrow> session_state \<Rightarrow> exn + session_state" where
  "errors_setitem k v s =
     (case parallel_errors s of
        None \<Rightarrow> Inl (AttributeError (ascii ''parallel_errors''))
      | Some d \<Rightarrow> Inr (s\<lparr>parallel_errors := Some (dict_set d k v)\<rparr>))"

section \<open>Parallel scheduler\<close>

text \<open>
  The loop of lines 80 to 87: every configured agent gets a fresh \<open>'waiting'\<close> entry.
  A loop gives back the exception that stopped it, if any, and the state reached.
\<close>

definition waiting_entry :: task_progress where
  "waiting_entry =
     \<lparr>status = Waiting, progress = 0, start_time = None, end_time = None, error = None\<rparr>"

fun reset_progress :: "pystr list \<Rightarrow> session_state \<Rightarrow> exn option \<times> session_state" where
  "reset_progress [] s = (None, s)"
| "reset_progress (a # as) s =
     (case progress_setitem a waiting_entry s of
        Inl e \<Rightarrow> (Some e, s)
      | Inr s' \<Rightarrow> reset_progress as s')"

text \<open>
  A future of the worker pool. A successful \<open>executor.submit\<close> gives the future of the
  call of \<open>_execute_single_agent_with_context\<close>: the worker stores in it what that call
  returns or raises, whatever the exception, and the future holds the time the call
  runs. \<open>future.result(timeout)\<close> gives the outcome at once when the future is
  finished, returning the value or raising the stored exception, and otherwise waits
  for at most \<open>timeout\<close> seconds and raises \<open>TimeoutError\<close> when the call runs longer.
\<close>

datatype future_state = RUNNING | FINISHED

record future =
  fut_state :: future_state
  fut_seconds :: nat
  fut_outcome :: "exn + task_result"

definition submit :: "engine \<Rightarrow> env \<Rightarrow> pystr \<Rightarrow> pystr \<Rightarrow> pystr \<Rightarrow> future" where
  "submit eng ev name stock_code company_name =
     \<lparr>fut_state = RUNNING,
      fut_seconds = worker_seconds eng name stock_code company_name,
      fut_outcome = execute_single_agent_with_context eng ev name stock_code company_name\<rparr>"

definition future_result :: "future \<Rightarrow> nat \<Rightarrow> exn + task_result" where
  "future_result fut timeout =
     (if fut_state fut = FINISHED \<or> fut_seconds fut \<le> timeout then fut_outcome fut
      else Inl TimeoutError)"

text \<open>
  The loop of lines 100 to 118. The entry of a loaded agent is marked \<open>'starting'\<close>
  before \<open>executor.submit\<close> is called, so a failing submission leaves the mark and
  ends the loop. \<open>future_to_agent\<close> is keyed by the future objects, which are all
  different, so every submission appends a pair.
\<close>

fun submit_agents ::
  "engine \<Rightarrow> env \<Rightarrow> pystr \<Rightarrow> pystr \<Rightarrow> pystr list \<Rightarrow> (future \<times> pystr) list \<Rightarrow> session_state
   \<Rightarrow> (exn + (future \<times> pystr) list) \<times> session_state" where
  "submit_agents eng ev stock_code company_name [] future_to_agent s = (Inr future_to_agent, s)"
| "submit_agents eng ev stock_code company_name (a # as) future_to_agent s =
     (if agents eng a \<noteq> None then
        (case progress_entry_update a (\<lambda>p. p\<lparr>status := Starting\<rparr>) s of
           Inl e \<Rightarrow> (Inl e, s)
         | Inr s1 \<Rightarrow>
             (case progress_entry_update a (\<lambda>p. p\<lparr>start_time := Some (clock ev (Submitted a))\<rparr>) s1 of
                Inl e \<Rightarrow> (Inl e, s1)
              | Inr s2 \<Rightarrow>
                  (case submit_error ev a of
                     Some e \<Rightarrow> (Inl e, s2)
                   | None \<Rightarrow>
                       submit_agents eng ev stock_code company_name as
                         (future_to_agent @ [(submit eng ev a stock_code company_name, a)]) s2)))
      else submit_agents eng ev stock_code company_name as future_to_agent s)"

text \<open>
  \<open>as_completed(future_to_agent)\<close> yields every future once, when it has finished, in the
  order in which the futures complete; each is paired here with
  \<open>future_to_agent[future]\<close>.
\<close>

definition as_completed :: "env \<Rightarrow> (future \<times> pystr) list \<Rightarrow> (future \<times> pystr) list" where
  "as_completed ev future_to_agent =
     map (\<lambda>(fut, a). (fut\<lparr>fut_state := FINISHED\<rparr>, a))
       (sort_key (\<lambda>(fut, a). completion_rank ev a) future_to_agent)"

text \<open>The success branch (lines 138 to 143) and the \<open>except\<close> branch (lines 149 to 158).\<close>

definition record_success ::
  "env \<Rightarrow> pystr \<Rightarrow> task_result \<Rightarrow> session_state \<Rightarrow> exn option \<times> session_state" where
  "record_success ev a result s =
     (case results_setitem a result s of
        Inl e \<Rightarrow> (Some e, s)
      | Inr s1 \<Rightarrow>
          (case progress_entry_update a
                  (\<lambda>p. p\<lparr>status := Completed, progress := 100,
                          end_time := Some (clock ev (Collected a))\<rparr>) s1 of
             Inl e \<Rightarrow> (Some e, s1)
           | Inr s2 \<Rightarrow> (None, s2)))"

definition record_failure ::
  "env \<Rightarrow> pystr \<Rightarrow> exn \<Rightarrow> session_state \<Rightarrow> exn option \<times> session_state" where
  "record_failure ev a e s =
     (let error_msg = str_exn e in
      case errors_setitem a error_msg s of
        Inl e' \<Rightarrow> (Some e', s)
      | Inr s1 \<Rightarrow>
          (case progress_entry_update a
                  (\<lambda>p. p\<lparr>status := Error, progress := 0,
                          end_time := Some (clock ev (Collected a)),
                          error := Some error_msg\<rparr>) s1 of
             Inl e' \<Rightarrow> (Some e', s1)
           | Inr s2 \<Rightarrow> (None, s2)))"

text \<open>
  One round of the collection loop (lines 127 to 160): the \<open>try\<close> with
  \<open>future.result(timeout=300)\<close> and its \<open>except Exception\<close> clause. An instance of
  \<open>Exception\<close> raised by \<open>future.result\<close> or by the success branch is handled by the
  clause; any other exception, and an exception of the clause itself, leaves the loop.
\<close>

definition collect_future ::
  "env \<Rightarrow> future \<Rightarrow> pystr \<Rightarrow> session_state \<Rightarrow> exn option \<times> session_state" where
  "collect_future ev fut a s =
     (case future_result fut 300 of
        Inr result \<Rightarrow>
          (case record_success ev a result s of
             (None, s') \<Rightarrow> (None, s')
           | (Some e, s') \<Rightarrow>
               (if is_exception e then record_failure ev a e s' else (Some e, s')))
      | Inl e \<Rightarrow> (if is_exception e then record_failure ev a e s else (Some e, s)))"

fun collect_results ::
  "env \<Rightarrow> (future \<times> pystr) list \<Rightarrow> session_state \<Rightarrow> exn option \<times> session_state" where
  "collect_results ev [] s = (None, s)"
| "collect_results ev ((fut, a) # rest) s =
     (case collect_future ev fut a s of
        (Some e, s') \<Rightarrow> (Some e, s')
      | (None, s') \<Rightarrow> collect_results ev rest s')"

text \<open>
  \<open>ThreadPoolExecutor(max_workers=...)\<close>: the constructor refuses a pool without
  workers and starts no thread.
\<close>

definition thread_pool_executor :: "nat \<Rightarrow> exn option" where
  "thread_pool_executor max_workers =
     (if max_workers = 0 then Some (ValueError (ascii ''max_workers must be greater than 0''))
      else None)"

text \<open>The number of progress entries whose status is \<open>'completed'\<close> (lines 166 to 169).\<close>

definition successful_agents :: "task_progress dict \<Rightarrow> nat" where
  "successful_agents d = length (filter (\<lambda>(a, p). status p = Completed) d)"

text \<open>
  The \<open>try\<close> block of \<open>execute_agents_parallel\<close>: what it returns or raises, and the
  session state it leaves.
\<close>

definition execute_body ::
  "engine \<Rightarrow> env \<Rightarrow> pystr \<Rightarrow> pystr \<Rightarrow> session_state \<Rightarrow> (exn + bool) \<times> session_state" where
  "execute_body eng ev stock_code company_name s0 =
     (let s1 = initialize_session_state s0 in
      case reset_progress (keys (agent_config eng)) s1 of
        (Some e, s2) \<Rightarrow> (Inl e, s2)
      | (None, s2) \<Rightarrow>
          (let s3 = s2\<lparr>parallel_execution_started := Some True\<rparr>;
               max_workers = min 2 (length (agent_config eng))
           in case thread_pool_executor max_workers of
                Some e \<Rightarrow> (Inl e, s3)
              | None \<Rightarrow>
                  (case submit_agents eng ev stock_code company_name
                          (keys (agent_config eng)) [] s3 of
                     (Inl e, s4) \<Rightarrow> (Inl e, s4)
                   | (Inr future_to_agent, s4) \<Rightarrow>
                       (case collect_results ev (as_completed ev future_to_agent) s4 of
                          (Some e, s5) \<Rightarrow> (Inl e, s5)
                        | (None, s5) \<Rightarrow>
                            (let s6 = s5\<lparr>parallel_execution_completed := Some True\<rparr> in
                             case parallel_progress s6 of
                               None \<Rightarrow> (Inl (AttributeError (ascii ''parallel_progress'')), s6)
                             | Some d \<Rightarrow> (Inr (5 \<le> successful_agents d), s6))))))"

text \<open>
  \<open>execute_agents_parallel\<close>: the \<open>try\<close> block, and the \<open>except Exception\<close> clause that
  logs, sets the completed flag and returns \<open>False\<close>; an exception that is not an
  instance of \<open>Exception\<close> passes the clause. The result is what the caller gets: a
  returned value (\<open>Inr\<close>) or a raised exception (\<open>Inl\<close>).
\<close>

definition execute_agents_parallel ::
  "engine \<Rightarrow> env \<Rightarrow> pystr \<Rightarrow> pystr \<Rightarrow> session_state \<Rightarrow> (exn + bool) \<times> session_state" where
  "execute_agents_parallel eng ev stock_code company_name s =
     (case execute_body eng ev stock_code company_name s of
        (Inl e, s') \<Rightarrow>
          (if is_exception e then (Inr False, s'\<lparr>parallel_execution_completed := Some True\<rparr>)
           else (Inl e, s'))
      | (Inr b, s') \<Rightarrow> (Inr b, s'))"

section \<open>Run start in the application\<close>

text \<open>
  The session-state assignments of \<open>run_parallel_analysis\<close> (\<open>main.py\<close>, lines 422 to
  426) before it calls the engine, and \<open>_reset_parallel_execution\<close> of the helpers,
  which deletes the five attributes.
\<close>

definition run_parallel_analysis_reset :: "session_state \<Rightarrow> session_state" where
  "run_parallel_analysis_reset s =
     s\<lparr>parallel_execution_started := Some True,
       parallel_execution_completed := Some False,
       parallel_results := Some [],
       parallel_progress := Some [],
       current_analysis_type := Some (ascii ''parallel'')\<rparr>"

definition reset_parallel_execution :: "session_state \<Rightarrow> session_state" where
  "reset_parallel_execution s =
     s\<lparr>parallel_results := None, parallel_progress := None, parallel_errors := None,
       parallel_execution_started := None, parallel_execution_completed := None\<rparr>"

text \<open>\<open>run_parallel_analysis\<close> up to the return of the engine call.\<close>

definition run_parallel_analysis ::
  "engine \<Rightarrow> env \<Rightarrow> pystr \<Rightarrow> pystr \<Rightarrow> session_state \<Rightarrow> (exn + bool) \<times> session_state" where
  "run_parallel_analysis eng ev symbol company_name s =
     execute_agents_parallel eng ev symbol company_name (run_parallel_analysis_reset s)"

text \<open>A session in which nothing has been set.\<close>

definition fresh_session :: session_state where
  "fresh_session =
     \<lparr>parallel_results = None, parallel_progress = None, parallel_errors = None,
      parallel_execution_started = None, parallel_execution_completed = None,
      current_analysis_type = None\<rparr>"

section \<open>Notions used in the statements\<close>

text \<open>
  What the two updates of a progress entry do to it: the submission (status and start
  time) and the collection of a future's outcome.
\<close>

definition start_entry :: "env \<Rightarrow> pystr \<Rightarrow> task_progress \<Rightarrow> task_progress" where
  "start_entry ev a p = p\<lparr>status := Starting, start_time := Some (clock ev (Submitted a))\<rparr>"

definition finish_entry :: "env \<Rightarrow> pystr \<Rightarrow> exn + task_result \<Rightarrow> task_progress \<Rightarrow> task_progress" where
  "finish_entry ev a r p =
     (case r of
        Inr res \<Rightarrow> p\<lparr>status := Completed, progress := 100, end_time := Some (clock ev (Collected a))\<rparr>
      | Inl e \<Rightarrow> p\<lparr>status := Error, progress := 0, end_time := Some (clock ev (Collected a)),
                    error := Some (str_exn e)\<rparr>)"

text \<open>
  The three dictionaries as \<open>initialize_session_state\<close> leaves them: a missing
  attribute becomes the empty dictionary.
\<close>

definition results0 :: "session_state \<Rightarrow> task_result dict" where
  "results0 s = (case parallel_results s of None \<Rightarrow> [] | Some r \<Rightarrow> r)"

definition progress0 :: "session_state \<Rightarrow> task_progress dict" where
  "progress0 s = (case parallel_progress s of None \<Rightarrow> [] | Some d \<Rightarrow> d)"

definition errors0 :: "session_state \<Rightarrow> pystr dict" where
  "errors0 s = (case parallel_errors s of None \<Rightarrow> [] | Some e \<Rightarrow> e)"

text \<open>
  The progress entry of a configured agent after a run whose pool was set up: the
  \<open>'waiting'\<close> entry when the agent is not loaded, else the entry after submission and
  collection.
\<close>

definition final_entry :: "engine \<Rightarrow> env \<Rightarrow> pystr \<Rightarrow> pystr \<Rightarrow> pystr \<Rightarrow> task_progress" where
  "final_entry eng ev c n k =
     (if agents eng k \<noteq> None
      then finish_entry ev k (execute_single_agent_with_context eng ev k c n)
             (start_entry ev k waiting_entry)
      else waiting_entry)"

text \<open>
  Lookups in the session state, \<open>None\<close> when the attribute or the key is missing, and
  the count of \<open>'completed'\<close> entries of a state.
\<close>

definition progress_of :: "session_state \<Rightarrow> pystr \<Rightarrow> task_progress option" where
  "progress_of s a = (case parallel_progress s of None \<Rightarrow> None | Some d \<Rightarrow> map_of d a)"

definition result_of :: "session_state \<Rightarrow> pystr \<Rightarrow> task_result option" where
  "result_of s a = (case parallel_results s of None \<Rightarrow> None | Some r \<Rightarrow> map_of r a)"

definition error_of :: "session_state \<Rightarrow> pystr \<Rightarrow> pystr option" where
  "error_of s a = (case parallel_errors s of None \<Rightarrow> None | Some e \<Rightarrow> map_of e a)"

definition completed_count :: "session_state \<Rightarrow> nat" where
  "completed_count s = (case parallel_progress s of None \<Rightarrow> 0 | Some d \<Rightarrow> successful_agents d)"

text \<open>
  The progress dictionary of a state holds no key outside the configuration; this is
  so in a new session, after the assignments of \<open>run_parallel_analysis\<close> and after
  an earlier run of the same engine.
\<close>

definition no_foreign_progress :: "engine \<Rightarrow> session_state \<Rightarrow> bool" where
  "no_foreign_progress eng s =
     (case parallel_progress s of
        None \<Rightarrow> True
      | Some d \<Rightarrow> distinct (keys d) \<and> set (keys d) \<subseteq> set (keys (agent_config eng)))"

text \<open>
  \<open>executor.submit\<close> fails for no loaded configured agent; and the worker pool of the
  run is set up and takes every submission: the constructor does not raise either.
\<close>

definition submissions_accepted :: "engine \<Rightarrow> env \<Rightarrow> bool" where
  "submissions_accepted eng ev \<longleftrightarrow>
     filter (\<lambda>a. agents eng a \<noteq> None \<and> submit_error ev a \<noteq> None)
       (keys (agent_config eng)) = []"

definition pool_ready :: "engine \<Rightarrow> env \<Rightarrow> bool" where
  "pool_ready eng ev \<longleftrightarrow>
     thread_pool_executor (min 2 (length (agent_config eng))) = None \<and>
     submissions_accepted eng ev"

text \<open>
  The progress entry of an agent is consistent: a \<open>'completed'\<close> entry has an end time
  and the agent has a result; an \<open>'error'\<close> entry has an error message.
\<close>

definition entry_ok :: "session_state \<Rightarrow> pystr \<Rightarrow> bool" where
  "entry_ok s a =
     (case progress_of s a of
        None \<Rightarrow> True
      | Some p \<Rightarrow>
          (status p \<noteq> Completed \<or> end_time p \<noteq> None \<and> result_of s a \<noteq> None) \<and>
          (status p \<noteq> Error \<or> error p \<noteq> None))"

text \<open>
  Every exception of the run is an instance of \<open>Exception\<close>: what the executor raises
  for a loaded configured agent, and what \<open>executor.submit\<close> raises for one.
\<close>

definition raises_base_exception :: "exn + 'a \<Rightarrow> bool" where
  "raises_base_exception r = (case r of Inl e \<Rightarrow> \<not> is_exception e | Inr v \<Rightarrow> False)"

definition submit_raises_base_exception :: "env \<Rightarrow> pystr \<Rightarrow> bool" where
  "submit_raises_base_exception ev a =
     (case submit_error ev a of Some e \<Rightarrow> \<not> is_exception e | None \<Rightarrow> False)"

definition only_exceptions :: "engine \<Rightarrow> env \<Rightarrow> pystr \<Rightarrow> pystr \<Rightarrow> bool" where
  "only_exceptions eng ev c n \<longleftrightarrow>
     filter (\<lambda>a. agents eng a \<noteq> None \<and>
                 (submit_raises_base_exception ev a \<or>
                  raises_base_exception (execute_single_agent_with_context eng ev a c n)))
       (keys (agent_config eng)) = []"


section \<open>Example agents, engines and environments\<close>

text \<open>
  Agents that answer with one message, answer after 400 seconds, raise an
  \<open>Exception\<close>, raise \<open>SystemExit\<close>, answer with an empty content, and answer without
  any message; an engine with the configuration of the source in which all eight
  agents are loaded and \<open>context_expert\<close> is the given agent; an environment without
  faults and one in which the pool cannot start a thread at the first submission.
\<close>

definition answering_agent :: agent where
  "answering_agent request =
     \<lparr>outcome = InvokeReturns (Some [ContentMessage (ascii ''Outlook stable.'')]), seconds = 40\<rparr>"

definition slow_agent :: agent where
  "slow_agent request =
     \<lparr>outcome = InvokeReturns (Some [ContentMessage (ascii ''Outlook stable.'')]), seconds = 400\<rparr>"

definition raising_agent :: agent where
  "raising_agent request =
     \<lparr>outcome = InvokeRaises (OtherException (ascii ''rate limit exceeded'')), seconds = 2\<rparr>"

definition exiting_agent :: agent where
  "exiting_agent request =
     \<lparr>outcome = InvokeRaises (SystemExit (ascii ''shutting down'')), seconds = 2\<rparr>"



definition engine_with :: "agent \<Rightarrow> engine" where
  "engine_with special =
     \<lparr>agents = (\<lambda>k. if k = ascii ''context_expert'' then Some special
                     else if k \<in> set (keys default_agent_config) then Some answering_agent
                     else None),
      agent_config = default_agent_config\<rparr>"

definition calm_env :: env where
  "calm_env =
     \<lparr>submit_error = (\<lambda>a. None), completion_rank = length,
      clock = (\<lambda>e. case e of Submitted a \<Rightarrow> 0 | Executed a \<Rightarrow> 1 | Collected a \<Rightarrow> 2)\<rparr>"

definition broken_pool_env :: env where
  "broken_pool_env =
     calm_env\<lparr>submit_error :=
       (\<lambda>a. if a = ascii ''context_expert''
            then Some (RuntimeError (ascii ''cannot start new thread'')) else None)\<rparr>"

section \<open>Properties of the registry and of the completion signal\<close>

lemma ascii_eq_iff: "ascii s = ascii t \<longleftrightarrow> s = t"
  unfolding ascii_def by (simp add: inj_map_eq_map inj_on_def)

text \<open>
  Claim C5. The completion-signal step is idempotent: for an agent whose completion
  signal is not empty and an output that already contains the signal, the step gives
  the output back unchanged, so the signal is not added a second time and the length
  stays the same.
\<close>

theorem completion_signal_idempotent:
  "get_completion_signal a \<noteq> [] \<Longrightarrow> sublist (get_completion_signal a) output \<Longrightarrow>
   add_completion_signal (get_completion_signal a) output = output \<and>
   length (add_completion_signal (get_completion_signal a) output) = length output"
  by (simp add: add_completion_signal_def)

lemma completion_signal_context_expert:
  "get_completion_signal (ascii ''context_expert'') = ascii ''MARKET_CONTEXT_ANALYSIS_COMPLETE''"
  by (simp add: get_completion_signal_def completion_signals_def)

lemma sublist_context_expert_example:
  "sublist (ascii ''MARKET_CONTEXT_ANALYSIS_COMPLETE'')
     (ascii ''Rates are steady. MARKET_CONTEXT_ANALYSIS_COMPLETE'')"
  unfolding ascii_def by (simp add: sublist_Cons_right)

theorem completion_signal_idempotent_witness:
  "get_completion_signal (ascii ''context_expert'') \<noteq> [] \<and>
   sublist (get_completion_signal (ascii ''context_expert''))
     (ascii ''Rates are steady. MARKET_CONTEXT_ANALYSIS_COMPLETE'') \<and>
   add_completion_signal (get_completion_signal (ascii ''context_expert''))
     (ascii ''Rates are steady. MARKET_CONTEXT_ANALYSIS_COMPLETE'')
     = ascii ''Rates are steady. MARKET_CONTEXT_ANALYSIS_COMPLETE'' \<and>
   length (add_completion_signal (get_completion_signal (ascii ''context_expert''))
     (ascii ''Rates are steady. MARKET_CONTEXT_ANALYSIS_COMPLETE''))
     = length (ascii ''Rates are steady. MARKET_CONTEXT_ANALYSIS_COMPLETE'')"
proof -
  have nonempty: "get_completion_signal (ascii ''context_expert'') \<noteq> []"
    by (simp only: completion_signal_context_expert) (simp add: ascii_def)
  have present: "sublist (get_completion_signal (ascii ''context_expert''))
     (ascii ''Rates are steady. MARKET_CONTEXT_ANALYSIS_COMPLETE'')"
    by (simp only: completion_signal_context_expert sublist_context_expert_example)
  from completion_signal_idempotent [OF nonempty present] nonempty present
  show ?thesis by blast
qed

text \<open>Running the step on its own result changes nothing, whatever the output was.\<close>

lemma add_completion_signal_twice:
  "add_completion_signal sig (add_completion_signal sig output)
   = add_completion_signal sig output"
proof -
  have "sublist sig (strip output @ [0x0A, 0x0A] @ sig)"
    by (rule suffix_imp_sublist) (simp add: suffix_def)
  then show ?thesis by (simp add: add_completion_signal_def)
qed

text \<open>
  Claim C9, as the code has it. Building the request text for an agent name that is
  not in the catalogue does not fail: \<open>_create_agent_request\<close> gives back the generic
  request, made of the stock code only.
\<close>

theorem create_agent_request_unknown:
  "a \<notin> set (keys default_agent_config) \<Longrightarrow>
   create_agent_request a stock_code company_name = req_head @ stock_code @ req_default"
  by (auto simp add: create_agent_request_def base_requests_def keys_def
      default_agent_config_def)

theorem create_agent_request_unknown_witness:
  "ascii ''quant_expert'' \<notin> set (keys default_agent_config) \<and>
   create_agent_request (ascii ''quant_expert'') (ascii ''000660'') (ascii ''SK hynix'')
     = req_head @ ascii ''000660'' @ req_default"
proof -
  have absent: "ascii ''quant_expert'' \<notin> set (keys default_agent_config)"
    by (simp add: keys_def default_agent_config_def ascii_eq_iff)
  from create_agent_request_unknown [OF absent] absent show ?thesis by blast
qed

text \<open>
  The claim as the specification states it (an \<open>UnknownAgent\<close> failure instead of a
  request string) is false: for the unregistered name \<open>macro_expert\<close> a request string
  comes back.
\<close>

theorem create_agent_request_unknown_counterexample:
  "ascii ''macro_expert'' \<notin> set (keys default_agent_config) \<and>
   map_of (base_requests (ascii ''005930'') (ascii ''Samsung'')) (ascii ''macro_expert'') = None \<and>
   create_agent_request (ascii ''macro_expert'') (ascii ''005930'') (ascii ''Samsung'')
     = [0xC885, 0xBAA9, 0x20, 0x30, 0x30, 0x35, 0x39, 0x33, 0x30, 0xC5D0, 0x20, 0xB300, 0xD55C,
        0x20, 0xBD84, 0xC11D, 0xC744, 0x20, 0xC218, 0xD589, 0xD574, 0xC8FC, 0xC138, 0xC694, 0x2E]"
  by (simp add: create_agent_request_def base_requests_def keys_def default_agent_config_def
      ascii_eq_iff req_head_def req_default_def)
     (simp add: ascii_def)

section \<open>The scheduler, loop by loop\<close>

text \<open>
  Each loop is characterised on a state in which the attributes and keys it reads are
  present, which is what the preceding steps establish; the branches that raise
  \<open>AttributeError\<close> or \<open>KeyError\<close> are therefore not taken in a run.
\<close>

lemma map_of_dict_set: "map_of (dict_set d k v) = (map_of d)(k \<mapsto> v)"
  by (simp add: dict_set_def update_conv')

lemma keys_dict_set_present: "map_of d k = Some p \<Longrightarrow> keys (dict_set d k v) = keys d"
  by (simp add: dict_set_def keys_def update_keys map_of_eq_Some_iff weak_map_of_SomeI
      image_iff) (metis fst_conv map_of_SomeD image_iff)

lemma set_keys_dict_set: "set (keys (dict_set d k v)) = insert k (set (keys d))"
  by (auto simp: dict_set_def keys_def update_keys)

lemma distinct_keys_dict_set: "distinct (keys d) \<Longrightarrow> distinct (keys (dict_set d k v))"
  by (simp add: dict_set_def keys_def distinct_update)

lemma reset_progress_ok:
  "parallel_progress s = Some d \<Longrightarrow>
   \<exists>d'. reset_progress ks s = (None, s\<lparr>parallel_progress := Some d'\<rparr>) \<and>
        (\<forall>k. map_of d' k = (if k \<in> set ks then Some waiting_entry else map_of d k)) \<and>
        set (keys d') = set (keys d) \<union> set ks \<and>
        (distinct (keys d) \<longrightarrow> distinct (keys d'))"
proof (induction ks arbitrary: s d)
  case Nil
  then show ?case by (intro exI[of _ d]) simp
next
  case (Cons a ks)
  let ?s1 = "s\<lparr>parallel_progress := Some (dict_set d a waiting_entry)\<rparr>"
  have step: "progress_setitem a waiting_entry s = Inr ?s1"
    using Cons.prems by (simp add: progress_setitem_def)
  have "parallel_progress ?s1 = Some (dict_set d a waiting_entry)" by simp
  from Cons.IH[OF this] obtain d' where
    d': "reset_progress ks ?s1 = (None, ?s1\<lparr>parallel_progress := Some d'\<rparr>)"
      "\<forall>k. map_of d' k = (if k \<in> set ks then Some waiting_entry
                            else map_of (dict_set d a waiting_entry) k)"
      "set (keys d') = set (keys (dict_set d a waiting_entry)) \<union> set ks"
      "distinct (keys (dict_set d a waiting_entry)) \<longrightarrow> distinct (keys d')"
    by blast
  show ?case
  proof (intro exI[of _ d'] conjI)
    show "reset_progress (a # ks) s = (None, s\<lparr>parallel_progress := Some d'\<rparr>)"
      using step d'(1) by simp
    show "\<forall>k. map_of d' k = (if k \<in> set (a # ks) then Some waiting_entry else map_of d k)"
      using d'(2) by (simp add: map_of_dict_set)
    show "set (keys d') = set (keys d) \<union> set (a # ks)"
      using d'(3) by (simp add: set_keys_dict_set)
    show "distinct (keys d) \<longrightarrow> distinct (keys d')"
      using d'(4) by (simp add: distinct_keys_dict_set)
  qed
qed

lemma start_entry_twice: "start_entry ev a (start_entry ev a p) = start_entry ev a p"
  by (simp add: start_entry_def)

lemma finish_entry_twice: "finish_entry ev a r (finish_entry ev a r p) = finish_entry ev a r p"
  by (cases r) (simp_all add: finish_entry_def)

lemma progress_entry_update_ok:
  "parallel_progress s = Some d \<Longrightarrow> map_of d k = Some p \<Longrightarrow>
   progress_entry_update k f s = Inr (s\<lparr>parallel_progress := Some (dict_set d k (f p))\<rparr>)"
  by (simp add: progress_entry_update_def)

lemma submit_step:
  assumes "parallel_progress s = Some d" "map_of d a = Some p"
  shows "\<exists>s2. progress_entry_update a (\<lambda>p. p\<lparr>status := Starting\<rparr>) s = Inr s2 \<and>
     progress_entry_update a (\<lambda>p. p\<lparr>start_time := Some (clock ev (Submitted a))\<rparr>) s2
       = Inr (s\<lparr>parallel_progress := Some (dict_set d a (start_entry ev a p))\<rparr>)"
proof -
  let ?d1 = "dict_set d a (p\<lparr>status := Starting\<rparr>)"
  let ?s1 = "s\<lparr>parallel_progress := Some ?d1\<rparr>"
  have 1: "progress_entry_update a (\<lambda>p. p\<lparr>status := Starting\<rparr>) s = Inr ?s1"
    using assms by (simp add: progress_entry_update_ok)
  have 2: "parallel_progress ?s1 = Some ?d1" by simp
  have 3: "map_of ?d1 a = Some (p\<lparr>status := Starting\<rparr>)" by (simp add: map_of_dict_set)
  have 4: "dict_set ?d1 a v = dict_set d a v" for v
    by (simp add: dict_set_def)
  show ?thesis
    using 1 progress_entry_update_ok[OF 2 3, of "\<lambda>p. p\<lparr>start_time := Some (clock ev (Submitted a))\<rparr>"]
    by (simp add: 4 start_entry_def)
qed

lemma submit_agents_ok:
  "parallel_progress s = Some d \<Longrightarrow> \<forall>a \<in> set as. map_of d a \<noteq> None \<Longrightarrow>
   \<forall>a \<in> set as. agents eng a \<noteq> None \<longrightarrow> submit_error ev a = None \<Longrightarrow>
   \<exists>d'. submit_agents eng ev c n as acc s =
          (Inr (acc @ map (\<lambda>a. (submit eng ev a c n, a)) (filter (\<lambda>a. agents eng a \<noteq> None) as)),
           s\<lparr>parallel_progress := Some d'\<rparr>) \<and>
        keys d' = keys d \<and>
        (\<forall>k. map_of d' k = (if k \<in> set as \<and> agents eng k \<noteq> None
                            then map_option (start_entry ev k) (map_of d k) else map_of d k))"
proof (induction as arbitrary: s d acc)
  case Nil
  then show ?case by (intro exI[of _ d]) simp
next
  case (Cons a as)
  show ?case
  proof (cases "agents eng a = None")
    case True
    from Cons.IH[OF Cons.prems(1), of acc] Cons.prems(2,3) obtain d' where
      d': "submit_agents eng ev c n as acc s =
          (Inr (acc @ map (\<lambda>a. (submit eng ev a c n, a)) (filter (\<lambda>a. agents eng a \<noteq> None) as)),
           s\<lparr>parallel_progress := Some d'\<rparr>)"
        "keys d' = keys d"
        "\<forall>k. map_of d' k = (if k \<in> set as \<and> agents eng k \<noteq> None
                            then map_option (start_entry ev k) (map_of d k) else map_of d k)"
      by auto
    show ?thesis
      by (intro exI[of _ d'] conjI) (use True d' in auto)
  next
    case False
    from Cons.prems(2) obtain p where p: "map_of d a = Some p" by auto
    let ?d1 = "dict_set d a (start_entry ev a p)"
    let ?s1 = "s\<lparr>parallel_progress := Some ?d1\<rparr>"
    from submit_step[OF Cons.prems(1) p, of ev] obtain s2 where
      s2: "progress_entry_update a (\<lambda>p. p\<lparr>status := Starting\<rparr>) s = Inr s2"
          "progress_entry_update a (\<lambda>p. p\<lparr>start_time := Some (clock ev (Submitted a))\<rparr>) s2 = Inr ?s1"
      by blast
    have pres: "\<forall>a \<in> set as. map_of ?d1 a \<noteq> None"
      using Cons.prems(2) by (simp add: map_of_dict_set)
    have accepted: "submit_error ev a = None" using Cons.prems(3) False by simp
    have rest: "\<forall>a \<in> set as. agents eng a \<noteq> None \<longrightarrow> submit_error ev a = None"
      using Cons.prems(3) by simp
    have "parallel_progress ?s1 = Some ?d1" by simp
    from Cons.IH[OF this pres rest, of "acc @ [(submit eng ev a c n, a)]"] obtain d' where
      d': "submit_agents eng ev c n as (acc @ [(submit eng ev a c n, a)]) ?s1 =
          (Inr ((acc @ [(submit eng ev a c n, a)]) @ map (\<lambda>a. (submit eng ev a c n, a)) (filter (\<lambda>a. agents eng a \<noteq> None) as)),
           ?s1\<lparr>parallel_progress := Some d'\<rparr>)"
        "keys d' = keys ?d1"
        "\<forall>k. map_of d' k = (if k \<in> set as \<and> agents eng k \<noteq> None
                            then map_option (start_entry ev k) (map_of ?d1 k) else map_of ?d1 k)"
      by blast
    show ?thesis
    proof (intro exI[of _ d'] conjI)
      show "submit_agents eng ev c n (a # as) acc s =
          (Inr (acc @ map (\<lambda>a. (submit eng ev a c n, a)) (filter (\<lambda>a. agents eng a \<noteq> None) (a # as))),
           s\<lparr>parallel_progress := Some d'\<rparr>)"
        using False s2 d'(1) accepted by simp
      show "keys d' = keys d"
        using d'(2) p by (simp add: keys_dict_set_present)
      show "\<forall>k. map_of d' k = (if k \<in> set (a # as) \<and> agents eng k \<noteq> None
                            then map_option (start_entry ev k) (map_of d k) else map_of d k)"
        using d'(3) p False by (auto simp add: map_of_dict_set start_entry_twice)
    qed
  qed
qed

lemma collect_future_ok:
  assumes "parallel_results s = Some r" "parallel_errors s = Some e"
    "parallel_progress s = Some d" "map_of d a = Some p" "fut_state fut = FINISHED"
    "\<not> raises_base_exception (fut_outcome fut)"
  shows "collect_future ev fut a s =
     (None, case fut_outcome fut of
              Inr res \<Rightarrow> s\<lparr>parallel_results := Some (dict_set r a res),
                           parallel_progress := Some (dict_set d a (finish_entry ev a (Inr res) p))\<rparr>
            | Inl x \<Rightarrow> s\<lparr>parallel_errors := Some (dict_set e a (str_exn x)),
                         parallel_progress := Some (dict_set d a (finish_entry ev a (Inl x) p))\<rparr>)"
proof (cases "fut_outcome fut")
  case (Inl x)
  then show ?thesis
    using assms
    by (simp add: collect_future_def future_result_def record_failure_def errors_setitem_def
        progress_entry_update_def finish_entry_def Let_def raises_base_exception_def)
next
  case (Inr res)
  then show ?thesis
    using assms
    by (simp add: collect_future_def future_result_def record_success_def results_setitem_def
        progress_entry_update_def finish_entry_def)
qed

lemma collect_results_ok:
  "parallel_results s = Some r \<Longrightarrow> parallel_errors s = Some e \<Longrightarrow>
   parallel_progress s = Some d \<Longrightarrow>
   \<forall>(fut, a) \<in> set futs. fut_state fut = FINISHED \<and> fut_outcome fut = F a \<and>
      map_of d a \<noteq> None \<and> \<not> raises_base_exception (F a) \<Longrightarrow>
   \<exists>r' e' d'. collect_results ev futs s =
        (None, s\<lparr>parallel_results := Some r', parallel_errors := Some e',
                 parallel_progress := Some d'\<rparr>) \<and>
      keys d' = keys d \<and>
      (\<forall>k. map_of d' k = (if k \<in> snd ` set futs
               then map_option (finish_entry ev k (F k)) (map_of d k) else map_of d k)) \<and>
      (\<forall>k. map_of r' k = (if k \<in> snd ` set futs
               then (case F k of Inr res \<Rightarrow> Some res | Inl x \<Rightarrow> map_of r k) else map_of r k)) \<and>
      (\<forall>k. map_of e' k = (if k \<in> snd ` set futs
               then (case F k of Inl x \<Rightarrow> Some (str_exn x) | Inr res \<Rightarrow> map_of e k)
               else map_of e k))"
proof (induction futs arbitrary: s r e d)
  case Nil
  have "s\<lparr>parallel_results := Some r, parallel_errors := Some e, parallel_progress := Some d\<rparr> = s"
    using Nil by (cases s) simp
  then show ?case
    by (intro exI[of _ r] exI[of _ e] exI[of _ d]) simp
next
  case (Cons fa futs)
  obtain fut a where fa: "fa = (fut, a)" by (cases fa)
  from Cons.prems(4) fa obtain p where
    fin: "fut_state fut = FINISHED" and out: "fut_outcome fut = F a" and p: "map_of d a = Some p"
    and caught: "\<not> raises_base_exception (fut_outcome fut)"
    by auto
  define r1 where "r1 = (case F a of Inr res \<Rightarrow> dict_set r a res | Inl x \<Rightarrow> r)"
  define e1 where "e1 = (case F a of Inl x \<Rightarrow> dict_set e a (str_exn x) | Inr res \<Rightarrow> e)"
  define d1 where "d1 = dict_set d a (finish_entry ev a (F a) p)"
  define s1 where "s1 = s\<lparr>parallel_results := Some r1, parallel_errors := Some e1,
                           parallel_progress := Some d1\<rparr>"
  have same: "s\<lparr>parallel_results := Some r\<rparr> = s" "s\<lparr>parallel_errors := Some e\<rparr> = s"
    using Cons.prems(1,2) by (cases s, simp)+
  have step: "collect_future ev fut a s = (None, s1)"
  proof (cases "F a")
    case (Inl x)
    have "s1 = s\<lparr>parallel_errors := Some (dict_set e a (str_exn x)),
                   parallel_progress := Some (dict_set d a (finish_entry ev a (Inl x) p))\<rparr>"
      using Inl Cons.prems(1) by (cases s) (simp add: s1_def r1_def e1_def d1_def)
    then show ?thesis
      using collect_future_ok[OF Cons.prems(1,2,3) p fin caught, of ev] out Inl by simp
  next
    case (Inr res)
    have "s1 = s\<lparr>parallel_results := Some (dict_set r a res),
                   parallel_progress := Some (dict_set d a (finish_entry ev a (Inr res) p))\<rparr>"
      using Inr Cons.prems(2) by (cases s) (simp add: s1_def r1_def e1_def d1_def)
    then show ?thesis
      using collect_future_ok[OF Cons.prems(1,2,3) p fin caught, of ev] out Inr by simp
  qed
  have s1r: "parallel_results s1 = Some r1" and s1e: "parallel_errors s1 = Some e1"
    and s1d: "parallel_progress s1 = Some d1"
    by (simp_all add: s1_def)
  have pres: "\<forall>(fut, a) \<in> set futs. fut_state fut = FINISHED \<and> fut_outcome fut = F a \<and>
      map_of d1 a \<noteq> None \<and> \<not> raises_base_exception (F a)"
    using Cons.prems(4) by (auto simp add: d1_def map_of_dict_set)
  from Cons.IH[OF s1r s1e s1d pres] obtain r' e' d' where
    res: "collect_results ev futs s1 =
        (None, s1\<lparr>parallel_results := Some r', parallel_errors := Some e',
                 parallel_progress := Some d'\<rparr>)"
      "keys d' = keys d1"
      "\<forall>k. map_of d' k = (if k \<in> snd ` set futs
               then map_option (finish_entry ev k (F k)) (map_of d1 k) else map_of d1 k)"
      "\<forall>k. map_of r' k = (if k \<in> snd ` set futs
               then (case F k of Inr res \<Rightarrow> Some res | Inl x \<Rightarrow> map_of r1 k) else map_of r1 k)"
      "\<forall>k. map_of e' k = (if k \<in> snd ` set futs
               then (case F k of Inl x \<Rightarrow> Some (str_exn x) | Inr res \<Rightarrow> map_of e1 k)
               else map_of e1 k)"
    by blast
  show ?case
  proof (intro exI[of _ r'] exI[of _ e'] exI[of _ d'] conjI)
    show "collect_results ev (fa # futs) s =
        (None, s\<lparr>parallel_results := Some r', parallel_errors := Some e',
                 parallel_progress := Some d'\<rparr>)"
      using step res(1) by (simp add: fa s1_def)
    show "keys d' = keys d"
      using res(2) p by (simp add: d1_def keys_dict_set_present)
    show "\<forall>k. map_of d' k = (if k \<in> snd ` set (fa # futs)
               then map_option (finish_entry ev k (F k)) (map_of d k) else map_of d k)"
      using res(3) p by (auto simp add: fa d1_def map_of_dict_set finish_entry_twice)
    show "\<forall>k. map_of r' k = (if k \<in> snd ` set (fa # futs)
               then (case F k of Inr res \<Rightarrow> Some res | Inl x \<Rightarrow> map_of r k) else map_of r k)"
      using res(4) by (auto simp add: fa r1_def map_of_dict_set split: sum.splits)
    show "\<forall>k. map_of e' k = (if k \<in> snd ` set (fa # futs)
               then (case F k of Inl x \<Rightarrow> Some (str_exn x) | Inr res \<Rightarrow> map_of e k)
               else map_of e k)"
      using res(5) by (auto simp add: fa e1_def map_of_dict_set split: sum.splits)
  qed
qed

lemma initialize_session_state_fields:
  "parallel_results (initialize_session_state s) = Some (results0 s)"
  "parallel_progress (initialize_session_state s) = Some (progress0 s)"
  "parallel_errors (initialize_session_state s) = Some (errors0 s)"
  "current_analysis_type (initialize_session_state s) = current_analysis_type s"
  by (auto simp add: initialize_session_state_def results0_def progress0_def errors0_def Let_def
      split: option.splits)

lemma as_completed_names: "snd ` set (as_completed ev fa) = snd ` set fa"
  by (force simp add: as_completed_def)

lemma as_completed_finished:
  assumes "\<forall>(fut, a) \<in> set fa. fut_outcome fut = F a \<and> P a"
  shows "\<forall>(fut, a) \<in> set (as_completed ev fa).
           fut_state fut = FINISHED \<and> fut_outcome fut = F a \<and> P a"
  using assms by (auto simp add: as_completed_def)

lemma pool_readyD:
  "pool_ready eng ev \<Longrightarrow> thread_pool_executor (min 2 (length (agent_config eng))) = None"
  "pool_ready eng ev \<Longrightarrow> a \<in> set (keys (agent_config eng)) \<Longrightarrow> agents eng a \<noteq> None \<Longrightarrow>
     submit_error ev a = None"
  by (auto simp add: pool_ready_def submissions_accepted_def filter_empty_conv)

lemma only_exceptionsD:
  "only_exceptions eng ev c n \<Longrightarrow> a \<in> set (keys (agent_config eng)) \<Longrightarrow> agents eng a \<noteq> None \<Longrightarrow>
     \<not> raises_base_exception (execute_single_agent_with_context eng ev a c n)"
  "only_exceptions eng ev c n \<Longrightarrow> a \<in> set (keys (agent_config eng)) \<Longrightarrow> agents eng a \<noteq> None \<Longrightarrow>
     submit_error ev a = Some e \<Longrightarrow> is_exception e"
  by (auto simp add: only_exceptions_def filter_empty_conv submit_raises_base_exception_def)

lemma submit_agents_fail:
  "parallel_progress s = Some d \<Longrightarrow> \<forall>a \<in> set as. map_of d a \<noteq> None \<Longrightarrow>
   \<exists>a \<in> set as. agents eng a \<noteq> None \<and> submit_error ev a \<noteq> None \<Longrightarrow>
   \<exists>e a d'. submit_agents eng ev c n as acc s = (Inl e, s\<lparr>parallel_progress := Some d'\<rparr>) \<and>
      a \<in> set as \<and> agents eng a \<noteq> None \<and> submit_error ev a = Some e \<and>
      keys d' = keys d \<and>
      map_of d' a = map_option (start_entry ev a) (map_of d a) \<and>
      (\<forall>k. map_of d' k = map_of d k \<or>
           k \<in> set as \<and> map_of d' k = map_option (start_entry ev k) (map_of d k))"
proof (induction as arbitrary: s d acc)
  case Nil
  then show ?case by simp
next
  case (Cons a0 as)
  show ?case
  proof (cases "agents eng a0 = None")
    case True
    with Cons.prems(3) have later: "\<exists>a \<in> set as. agents eng a \<noteq> None \<and> submit_error ev a \<noteq> None"
      by auto
    from Cons.prems(2) have pres: "\<forall>a \<in> set as. map_of d a \<noteq> None" by simp
    from Cons.IH[OF Cons.prems(1) pres later, of acc] obtain e a d' where
      r: "submit_agents eng ev c n as acc s = (Inl e, s\<lparr>parallel_progress := Some d'\<rparr>)"
        "a \<in> set as" "agents eng a \<noteq> None" "submit_error ev a = Some e" "keys d' = keys d"
        "map_of d' a = map_option (start_entry ev a) (map_of d a)"
        "\<forall>k. map_of d' k = map_of d k \<or>
           k \<in> set as \<and> map_of d' k = map_option (start_entry ev k) (map_of d k)"
      by blast
    show ?thesis
      by (intro exI[of _ e] exI[of _ a] exI[of _ d'] conjI) (use True r in auto)
  next
    case False
    from Cons.prems(2) obtain p where p: "map_of d a0 = Some p" by auto
    let ?d1 = "dict_set d a0 (start_entry ev a0 p)"
    let ?s1 = "s\<lparr>parallel_progress := Some ?d1\<rparr>"
    from submit_step[OF Cons.prems(1) p, of ev] obtain s2 where
      s2: "progress_entry_update a0 (\<lambda>p. p\<lparr>status := Starting\<rparr>) s = Inr s2"
          "progress_entry_update a0 (\<lambda>p. p\<lparr>start_time := Some (clock ev (Submitted a0))\<rparr>) s2 = Inr ?s1"
      by blast
    show ?thesis
    proof (cases "submit_error ev a0")
      case (Some e)
      have "submit_agents eng ev c n (a0 # as) acc s = (Inl e, ?s1)"
        using False s2 Some by simp
      moreover have "keys ?d1 = keys d" using p by (simp add: keys_dict_set_present)
      ultimately show ?thesis
        by (intro exI[of _ e] exI[of _ a0] exI[of _ ?d1] conjI)
           (use False Some p in \<open>auto simp add: map_of_dict_set\<close>)
    next
      case None
      with Cons.prems(3) have later: "\<exists>a \<in> set as. agents eng a \<noteq> None \<and> submit_error ev a \<noteq> None"
        by auto
      have pres: "\<forall>a \<in> set as. map_of ?d1 a \<noteq> None"
        using Cons.prems(2) by (simp add: map_of_dict_set)
      have "parallel_progress ?s1 = Some ?d1" by simp
      from Cons.IH[OF this pres later, of "acc @ [(submit eng ev a0 c n, a0)]"] obtain e a d' where
        r: "submit_agents eng ev c n as (acc @ [(submit eng ev a0 c n, a0)]) ?s1
              = (Inl e, ?s1\<lparr>parallel_progress := Some d'\<rparr>)"
          "a \<in> set as" "agents eng a \<noteq> None" "submit_error ev a = Some e" "keys d' = keys ?d1"
          "map_of d' a = map_option (start_entry ev a) (map_of ?d1 a)"
          "\<forall>k. map_of d' k = map_of ?d1 k \<or>
             k \<in> set as \<and> map_of d' k = map_option (start_entry ev k) (map_of ?d1 k)"
        by blast
      show ?thesis
      proof (intro exI[of _ e] exI[of _ a] exI[of _ d'] conjI)
        show "submit_agents eng ev c n (a0 # as) acc s = (Inl e, s\<lparr>parallel_progress := Some d'\<rparr>)"
          using False s2 None r(1) by simp
        show "a \<in> set (a0 # as)" using r(2) by simp
        show "agents eng a \<noteq> None" by (rule r(3))
        show "submit_error ev a = Some e" by (rule r(4))
        show "keys d' = keys d" using r(5) p by (simp add: keys_dict_set_present)
        show "map_of d' a = map_option (start_entry ev a) (map_of d a)"
          using r(6) p by (auto simp add: map_of_dict_set start_entry_twice)
        show "\<forall>k. map_of d' k = map_of d k \<or>
           k \<in> set (a0 # as) \<and> map_of d' k = map_option (start_entry ev k) (map_of d k)"
        proof
          fix k
          from r(7) have "map_of d' k = map_of ?d1 k \<or>
             k \<in> set as \<and> map_of d' k = map_option (start_entry ev k) (map_of ?d1 k)" by blast
          then show "map_of d' k = map_of d k \<or>
             k \<in> set (a0 # as) \<and> map_of d' k = map_option (start_entry ev k) (map_of d k)"
            using p by (cases "k = a0") (auto simp add: map_of_dict_set start_entry_twice)
        qed
      qed
    qed
  qed
qed

lemma entry_ok_collected:
  fixes s :: session_state and res :: "exn + task_result" and ev :: env and a k :: pystr
  assumes "parallel_results s = Some r" "parallel_errors s = Some e"
    "parallel_progress s = Some d" "map_of d a = Some p"
  defines "s1 \<equiv> (case res of
              Inr v \<Rightarrow> s\<lparr>parallel_results := Some (dict_set r a v),
                           parallel_progress := Some (dict_set d a (finish_entry ev a (Inr v) p))\<rparr>
            | Inl x \<Rightarrow> s\<lparr>parallel_errors := Some (dict_set e a (str_exn x)),
                         parallel_progress := Some (dict_set d a (finish_entry ev a (Inl x) p))\<rparr>)"
  shows "\<exists>r1 e1 d1. parallel_results s1 = Some r1 \<and> parallel_errors s1 = Some e1 \<and>
           parallel_progress s1 = Some d1 \<and> keys d1 = keys d \<and>
           (\<forall>k. map_of d k \<noteq> None \<longrightarrow> map_of d1 k \<noteq> None)"
    and "parallel_execution_completed s1 = parallel_execution_completed s"
    and "entry_ok s k \<Longrightarrow> entry_ok s1 k"
proof -
  show "\<exists>r1 e1 d1. parallel_results s1 = Some r1 \<and> parallel_errors s1 = Some e1 \<and>
           parallel_progress s1 = Some d1 \<and> keys d1 = keys d \<and>
           (\<forall>k. map_of d k \<noteq> None \<longrightarrow> map_of d1 k \<noteq> None)"
    using assms(1-4)
    by (cases res) (auto simp add: s1_def map_of_dict_set keys_dict_set_present)
  show "parallel_execution_completed s1 = parallel_execution_completed s"
    by (cases res) (simp_all add: s1_def)
  show "entry_ok s1 k" if "entry_ok s k"
  proof (cases res)
    case (Inl x)
    then show ?thesis
      using that assms(1-4)
      by (cases "k = a")
         (auto simp add: s1_def entry_ok_def progress_of_def result_of_def map_of_dict_set
            finish_entry_def split: option.splits)
  next
    case (Inr v)
    then show ?thesis
      using that assms(1-4)
      by (cases "k = a")
         (auto simp add: s1_def entry_ok_def progress_of_def result_of_def map_of_dict_set
            finish_entry_def split: option.splits)
  qed
qed

text \<open>
  The collection loop whatever the futures hold: it keeps the keys of the progress
  dictionary, the completed flag and the consistency of the entries, and it ends with
  an exception exactly when a future holds one that is not an instance of
  \<open>Exception\<close>, which it then raises.
\<close>

lemma collect_results_any:
  "parallel_results s = Some r \<Longrightarrow> parallel_errors s = Some e \<Longrightarrow>
   parallel_progress s = Some d \<Longrightarrow>
   \<forall>(fut, a) \<in> set futs. fut_state fut = FINISHED \<and> map_of d a \<noteq> None \<Longrightarrow>
   \<forall>k \<in> A. entry_ok s k \<Longrightarrow>
   \<exists>res s' d'. collect_results ev futs s = (res, s') \<and>
      parallel_progress s' = Some d' \<and> keys d' = keys d \<and>
      parallel_execution_completed s' = parallel_execution_completed s \<and>
      (\<forall>k \<in> A. entry_ok s' k) \<and>
      (case res of
         None \<Rightarrow> \<not> (\<exists>(fut, a) \<in> set futs. raises_base_exception (fut_outcome fut))
       | Some x \<Rightarrow> \<not> is_exception x \<and> (\<exists>(fut, a) \<in> set futs. fut_outcome fut = Inl x))"
proof (induction futs arbitrary: s r e d)
  case Nil
  then show ?case by simp
next
  case (Cons fa futs)
  obtain fut a where fa: "fa = (fut, a)" by (cases fa)
  from Cons.prems(4) fa obtain p where
    fin: "fut_state fut = FINISHED" and p: "map_of d a = Some p"
    by auto
  show ?case
  proof (cases "raises_base_exception (fut_outcome fut)")
    case True
    then obtain x where x: "fut_outcome fut = Inl x" "\<not> is_exception x"
      by (auto simp add: raises_base_exception_def split: sum.splits)
    then have "collect_future ev fut a s = (Some x, s)"
      using fin by (simp add: collect_future_def future_result_def)
    then show ?thesis
      using x Cons.prems(3,5)
      by (intro exI[of _ "Some x"] exI[of _ s] exI[of _ d]) (simp add: fa)
  next
    case False
    define s1 where "s1 = (case fut_outcome fut of
              Inr res \<Rightarrow> s\<lparr>parallel_results := Some (dict_set r a res),
                           parallel_progress := Some (dict_set d a (finish_entry ev a (Inr res) p))\<rparr>
            | Inl x \<Rightarrow> s\<lparr>parallel_errors := Some (dict_set e a (str_exn x)),
                         parallel_progress := Some (dict_set d a (finish_entry ev a (Inl x) p))\<rparr>)"
    have step: "collect_future ev fut a s = (None, s1)"
      using collect_future_ok[OF Cons.prems(1,2,3) p fin False, of ev] by (simp add: s1_def)
    from entry_ok_collected(1)[OF Cons.prems(1,2,3) p, where res = "fut_outcome fut" and ev = ev]
    obtain r1 e1 d1 where s1: "parallel_results s1 = Some r1" "parallel_errors s1 = Some e1"
      "parallel_progress s1 = Some d1" "keys d1 = keys d"
      "\<forall>k. map_of d k \<noteq> None \<longrightarrow> map_of d1 k \<noteq> None"
      unfolding s1_def by blast
    have flag: "parallel_execution_completed s1 = parallel_execution_completed s"
      using entry_ok_collected(2)[OF Cons.prems(1,2,3) p, where res = "fut_outcome fut" and ev = ev]
      by (simp add: s1_def)
    have ok1: "\<forall>k \<in> A. entry_ok s1 k"
      using entry_ok_collected(3)[OF Cons.prems(1,2,3) p, where res = "fut_outcome fut" and ev = ev]
        Cons.prems(5)
      by (simp add: s1_def)
    have pres: "\<forall>(fut, a) \<in> set futs. fut_state fut = FINISHED \<and> map_of d1 a \<noteq> None"
      using Cons.prems(4) s1(5) by auto
    from Cons.IH[OF s1(1,2,3) pres ok1] obtain res s' d' where
      r: "collect_results ev futs s1 = (res, s')" "parallel_progress s' = Some d'"
        "keys d' = keys d1"
        "parallel_execution_completed s' = parallel_execution_completed s1"
        "\<forall>k \<in> A. entry_ok s' k"
        "case res of
           None \<Rightarrow> \<not> (\<exists>(fut, a) \<in> set futs. raises_base_exception (fut_outcome fut))
         | Some x \<Rightarrow> \<not> is_exception x \<and> (\<exists>(fut, a) \<in> set futs. fut_outcome fut = Inl x)"
      by blast
    show ?thesis
    proof (intro exI[of _ res] exI[of _ s'] exI[of _ d'] conjI)
      show "collect_results ev (fa # futs) s = (res, s')"
        using step r(1) by (cases res) (simp_all add: fa)
      show "parallel_progress s' = Some d'" by (rule r(2))
      show "keys d' = keys d" using r(3) s1(4) by simp
      show "parallel_execution_completed s' = parallel_execution_completed s"
        using r(4) flag by simp
      show "\<forall>k \<in> A. entry_ok s' k" by (rule r(5))
      show "case res of
         None \<Rightarrow> \<not> (\<exists>(fut, a) \<in> set (fa # futs). raises_base_exception (fut_outcome fut))
       | Some x \<Rightarrow> \<not> is_exception x \<and> (\<exists>(fut, a) \<in> set (fa # futs). fut_outcome fut = Inl x)"
        using r(6) False by (cases res) (auto simp add: fa)
    qed
  qed
qed

lemma execute_body_not_ready:
  assumes "\<not> pool_ready eng ev"
  shows "\<exists>x d'. execute_body eng ev c n s0 =
           (Inl x, (initialize_session_state s0)\<lparr>parallel_progress := Some d',
                      parallel_execution_started := Some True\<rparr>) \<and>
         (thread_pool_executor (min 2 (length (agent_config eng))) = Some x \<or>
          (\<exists>a \<in> set (keys (agent_config eng)). agents eng a \<noteq> None \<and> submit_error ev a = Some x \<and>
             map_of d' a = Some (start_entry ev a waiting_entry))) \<and>
         (\<forall>k. if k \<in> set (keys (agent_config eng))
              then map_of d' k = Some waiting_entry \<or>
                   map_of d' k = Some (start_entry ev k waiting_entry)
              else map_of d' k = map_of (progress0 s0) k) \<and>
         set (keys d') = set (keys (progress0 s0)) \<union> set (keys (agent_config eng)) \<and>
         (distinct (keys (progress0 s0)) \<longrightarrow> distinct (keys d'))"
proof -
  let ?K = "keys (agent_config eng)"
  let ?s1 = "initialize_session_state s0"
  from reset_progress_ok[OF initialize_session_state_fields(2), where ks = ?K]
  obtain d1 where d1:
    "reset_progress ?K ?s1 = (None, ?s1\<lparr>parallel_progress := Some d1\<rparr>)"
    "\<forall>k. map_of d1 k = (if k \<in> set ?K then Some waiting_entry else map_of (progress0 s0) k)"
    "set (keys d1) = set (keys (progress0 s0)) \<union> set ?K"
    "distinct (keys (progress0 s0)) \<longrightarrow> distinct (keys d1)"
    by blast
  show ?thesis
  proof (cases "thread_pool_executor (min 2 (length (agent_config eng)))")
    case (Some x)
    show ?thesis
      by (intro exI[of _ x] exI[of _ d1] conjI)
         (use d1 Some in \<open>simp_all add: execute_body_def Let_def\<close>)
  next
    case None
    with assms have failing: "\<exists>a \<in> set ?K. agents eng a \<noteq> None \<and> submit_error ev a \<noteq> None"
      by (auto simp add: pool_ready_def submissions_accepted_def filter_empty_conv)
    define s3 where "s3 = ?s1\<lparr>parallel_progress := Some d1, parallel_execution_started := Some True\<rparr>"
    have s3d: "parallel_progress s3 = Some d1" by (simp add: s3_def)
    have pres1: "\<forall>a \<in> set ?K. map_of d1 a \<noteq> None" using d1(2) by simp
    from submit_agents_fail[OF s3d pres1 failing, of c n "[]"] obtain x a d2 where
      r: "submit_agents eng ev c n ?K [] s3 = (Inl x, s3\<lparr>parallel_progress := Some d2\<rparr>)"
        "a \<in> set ?K" "agents eng a \<noteq> None" "submit_error ev a = Some x" "keys d2 = keys d1"
        "map_of d2 a = map_option (start_entry ev a) (map_of d1 a)"
        "\<forall>k. map_of d2 k = map_of d1 k \<or>
           k \<in> set ?K \<and> map_of d2 k = map_option (start_entry ev k) (map_of d1 k)"
      by blast
    show ?thesis
    proof (intro exI[of _ x] exI[of _ d2] conjI)
      show "execute_body eng ev c n s0 =
           (Inl x, ?s1\<lparr>parallel_progress := Some d2, parallel_execution_started := Some True\<rparr>)"
        using d1(1) None r(1) by (simp add: execute_body_def Let_def s3_def)
      show "thread_pool_executor (min 2 (length (agent_config eng))) = Some x \<or>
          (\<exists>a \<in> set ?K. agents eng a \<noteq> None \<and> submit_error ev a = Some x \<and>
             map_of d2 a = Some (start_entry ev a waiting_entry))"
        using r(2,3,4,6) d1(2) by auto
      show "\<forall>k. if k \<in> set ?K
              then map_of d2 k = Some waiting_entry \<or>
                   map_of d2 k = Some (start_entry ev k waiting_entry)
              else map_of d2 k = map_of (progress0 s0) k"
      proof
        fix k
        from r(7) have "map_of d2 k = map_of d1 k \<or>
           k \<in> set ?K \<and> map_of d2 k = map_option (start_entry ev k) (map_of d1 k)" by blast
        then show "if k \<in> set ?K
              then map_of d2 k = Some waiting_entry \<or>
                   map_of d2 k = Some (start_entry ev k waiting_entry)
              else map_of d2 k = map_of (progress0 s0) k"
          using d1(2) by auto
      qed
      show "set (keys d2) = set (keys (progress0 s0)) \<union> set ?K" using r(5) d1(3) by simp
      show "distinct (keys (progress0 s0)) \<longrightarrow> distinct (keys d2)" using r(5) d1(4) by simp
    qed
  qed
qed

lemma execute_body_normal:
  assumes ready: "pool_ready eng ev" and caught: "only_exceptions eng ev c n"
  shows "\<exists>r' e' d'. execute_body eng ev c n s0 =
           (Inr (5 \<le> successful_agents d'),
            (initialize_session_state s0)\<lparr>parallel_results := Some r',
               parallel_errors := Some e', parallel_progress := Some d',
               parallel_execution_started := Some True,
               parallel_execution_completed := Some True\<rparr>) \<and>
         set (keys d') = set (keys (progress0 s0)) \<union> set (keys (agent_config eng)) \<and>
         (distinct (keys (progress0 s0)) \<longrightarrow> distinct (keys d')) \<and>
         (\<forall>k. map_of d' k = (if k \<in> set (keys (agent_config eng))
                             then Some (final_entry eng ev c n k)
                             else map_of (progress0 s0) k)) \<and>
         (\<forall>k. map_of r' k =
               (if k \<in> set (keys (agent_config eng)) \<and> agents eng k \<noteq> None
                then (case execute_single_agent_with_context eng ev k c n of
                        Inr res \<Rightarrow> Some res | Inl x \<Rightarrow> map_of (results0 s0) k)
                else map_of (results0 s0) k)) \<and>
         (\<forall>k. map_of e' k =
               (if k \<in> set (keys (agent_config eng)) \<and> agents eng k \<noteq> None
                then (case execute_single_agent_with_context eng ev k c n of
                        Inl x \<Rightarrow> Some (str_exn x) | Inr res \<Rightarrow> map_of (errors0 s0) k)
                else map_of (errors0 s0) k))"
proof -
  let ?K = "keys (agent_config eng)"
  let ?F = "\<lambda>k. execute_single_agent_with_context eng ev k c n"
  let ?s1 = "initialize_session_state s0"
  from reset_progress_ok[OF initialize_session_state_fields(2), where ks = ?K]
  obtain d1 where d1:
    "reset_progress ?K ?s1 = (None, ?s1\<lparr>parallel_progress := Some d1\<rparr>)"
    "\<forall>k. map_of d1 k = (if k \<in> set ?K then Some waiting_entry else map_of (progress0 s0) k)"
    "set (keys d1) = set (keys (progress0 s0)) \<union> set ?K"
    "distinct (keys (progress0 s0)) \<longrightarrow> distinct (keys d1)"
    by blast
  define s3 where "s3 = ?s1\<lparr>parallel_progress := Some d1, parallel_execution_started := Some True\<rparr>"
  have s3d: "parallel_progress s3 = Some d1" by (simp add: s3_def)
  have pres1: "\<forall>a \<in> set ?K. map_of d1 a \<noteq> None" using d1(2) by simp
  define fa where "fa = map (\<lambda>a. (submit eng ev a c n, a)) (filter (\<lambda>a. agents eng a \<noteq> None) ?K)"
  note pool = pool_readyD(1)[OF ready]
  have accepted: "\<forall>a \<in> set ?K. agents eng a \<noteq> None \<longrightarrow> submit_error ev a = None"
    using pool_readyD(2)[OF ready] by blast
  from submit_agents_ok[OF s3d pres1 accepted, of c n "[]"]
  obtain d2 where d2:
    "submit_agents eng ev c n ?K [] s3 = (Inr fa, s3\<lparr>parallel_progress := Some d2\<rparr>)"
    "keys d2 = keys d1"
    "\<forall>k. map_of d2 k = (if k \<in> set ?K \<and> agents eng k \<noteq> None
                          then map_option (start_entry ev k) (map_of d1 k) else map_of d1 k)"
    unfolding fa_def by auto
  define s4 where "s4 = s3\<lparr>parallel_progress := Some d2\<rparr>"
  have s4r: "parallel_results s4 = Some (results0 s0)"
    and s4e: "parallel_errors s4 = Some (errors0 s0)"
    and s4d: "parallel_progress s4 = Some d2"
    by (simp_all add: s4_def s3_def initialize_session_state_fields)
  have "\<forall>(fut, a) \<in> set fa. fut_outcome fut = ?F a \<and>
      (map_of d2 a \<noteq> None \<and> \<not> raises_base_exception (?F a))"
    using d2(3) d1(2) only_exceptionsD(1)[OF caught] by (auto simp add: fa_def submit_def)
  from as_completed_finished[OF this, of ev]
  have pres2: "\<forall>(fut, a) \<in> set (as_completed ev fa).
      fut_state fut = FINISHED \<and> fut_outcome fut = ?F a \<and>
      map_of d2 a \<noteq> None \<and> \<not> raises_base_exception (?F a)" .
  have names: "snd ` set (as_completed ev fa) = {a \<in> set ?K. agents eng a \<noteq> None}"
    by (auto simp add: as_completed_names fa_def image_iff)
  from collect_results_ok[OF s4r s4e s4d pres2, of ev]
  obtain r' e' d3 where d3:
    "collect_results ev (as_completed ev fa) s4 =
        (None, s4\<lparr>parallel_results := Some r', parallel_errors := Some e',
                  parallel_progress := Some d3\<rparr>)"
    "keys d3 = keys d2"
    "\<forall>k. map_of d3 k = (if k \<in> {a \<in> set ?K. agents eng a \<noteq> None}
               then map_option (finish_entry ev k (?F k)) (map_of d2 k) else map_of d2 k)"
    "\<forall>k. map_of r' k = (if k \<in> {a \<in> set ?K. agents eng a \<noteq> None}
               then (case ?F k of Inr res \<Rightarrow> Some res | Inl x \<Rightarrow> map_of (results0 s0) k)
               else map_of (results0 s0) k)"
    "\<forall>k. map_of e' k = (if k \<in> {a \<in> set ?K. agents eng a \<noteq> None}
               then (case ?F k of Inl x \<Rightarrow> Some (str_exn x) | Inr res \<Rightarrow> map_of (errors0 s0) k)
               else map_of (errors0 s0) k)"
    unfolding names by blast
  show ?thesis
  proof (intro exI[of _ r'] exI[of _ e'] exI[of _ d3] conjI)
    show "execute_body eng ev c n s0 =
           (Inr (5 \<le> successful_agents d3),
            ?s1\<lparr>parallel_results := Some r',
               parallel_errors := Some e', parallel_progress := Some d3,
               parallel_execution_started := Some True,
               parallel_execution_completed := Some True\<rparr>)"
      using d1(1) pool d2(1) d3(1)
      by (simp add: execute_body_def Let_def s3_def s4_def)
    show "set (keys d3) = set (keys (progress0 s0)) \<union> set ?K"
      using d3(2) d2(2) d1(3) by simp
    show "distinct (keys (progress0 s0)) \<longrightarrow> distinct (keys d3)"
      using d3(2) d2(2) d1(4) by simp
    show "\<forall>k. map_of d3 k = (if k \<in> set ?K then Some (final_entry eng ev c n k)
                             else map_of (progress0 s0) k)"
      using d3(3) d2(3) d1(2) by (simp add: final_entry_def)
    show "\<forall>k. map_of r' k =
               (if k \<in> set ?K \<and> agents eng k \<noteq> None
                then (case ?F k of Inr res \<Rightarrow> Some res | Inl x \<Rightarrow> map_of (results0 s0) k)
                else map_of (results0 s0) k)"
      using d3(4) by simp
    show "\<forall>k. map_of e' k =
               (if k \<in> set ?K \<and> agents eng k \<noteq> None
                then (case ?F k of Inl x \<Rightarrow> Some (str_exn x) | Inr res \<Rightarrow> map_of (errors0 s0) k)
                else map_of (errors0 s0) k)"
      using d3(5) by simp
  qed
qed

text \<open>
  The two ways a run ends when nothing outside \<open>Exception\<close> is raised: the pool takes
  every submission and every submitted future is collected, or making the pool or a
  submission raises and the \<open>except\<close> clause answers.
\<close>

lemma of_initial:
  "map_of (progress0 s) a = progress_of s a"
  "map_of (results0 s) a = result_of s a"
  "map_of (errors0 s) a = error_of s a"
  by (simp_all add: progress0_def results0_def errors0_def progress_of_def result_of_def
      error_of_def split: option.splits)

lemma run_normal:
  fixes eng :: engine and ev :: env and c n :: pystr and s0 :: session_state
  assumes "pool_ready eng ev" and "only_exceptions eng ev c n"
  defines "out \<equiv> execute_agents_parallel eng ev c n s0"
  shows "\<exists>d. parallel_progress (snd out) = Some d \<and> fst out = Inr (5 \<le> successful_agents d) \<and>
             set (keys d) = set (keys (progress0 s0)) \<union> set (keys (agent_config eng)) \<and>
             (distinct (keys (progress0 s0)) \<longrightarrow> distinct (keys d))"
    and "fst (execute_body eng ev c n s0) = fst out"
    and "progress_of (snd out) k =
           (if k \<in> set (keys (agent_config eng)) then Some (final_entry eng ev c n k)
            else progress_of s0 k)"
    and "result_of (snd out) k =
           (if k \<in> set (keys (agent_config eng)) \<and> agents eng k \<noteq> None
            then (case execute_single_agent_with_context eng ev k c n of
                    Inr res \<Rightarrow> Some res | Inl x \<Rightarrow> result_of s0 k)
            else result_of s0 k)"
    and "error_of (snd out) k =
           (if k \<in> set (keys (agent_config eng)) \<and> agents eng k \<noteq> None
            then (case execute_single_agent_with_context eng ev k c n of
                    Inl x \<Rightarrow> Some (str_exn x) | Inr res \<Rightarrow> error_of s0 k)
            else error_of s0 k)"
    and "parallel_execution_started (snd out) = Some True"
    and "parallel_execution_completed (snd out) = Some True"
proof -
  from execute_body_normal[OF assms(1,2), of s0] obtain r' e' d' where
    body: "execute_body eng ev c n s0 =
           (Inr (5 \<le> successful_agents d'),
            (initialize_session_state s0)\<lparr>parallel_results := Some r',
               parallel_errors := Some e', parallel_progress := Some d',
               parallel_execution_started := Some True,
               parallel_execution_completed := Some True\<rparr>)"
    and ks: "set (keys d') = set (keys (progress0 s0)) \<union> set (keys (agent_config eng))"
      "distinct (keys (progress0 s0)) \<longrightarrow> distinct (keys d')"
    and maps: "\<forall>k. map_of d' k = (if k \<in> set (keys (agent_config eng))
                             then Some (final_entry eng ev c n k)
                             else map_of (progress0 s0) k)"
      "\<forall>k. map_of r' k =
               (if k \<in> set (keys (agent_config eng)) \<and> agents eng k \<noteq> None
                then (case execute_single_agent_with_context eng ev k c n of
                        Inr res \<Rightarrow> Some res | Inl x \<Rightarrow> map_of (results0 s0) k)
                else map_of (results0 s0) k)"
      "\<forall>k. map_of e' k =
               (if k \<in> set (keys (agent_config eng)) \<and> agents eng k \<noteq> None
                then (case execute_single_agent_with_context eng ev k c n of
                        Inl x \<Rightarrow> Some (str_exn x) | Inr res \<Rightarrow> map_of (errors0 s0) k)
                else map_of (errors0 s0) k)"
    by blast
  have out: "out = (Inr (5 \<le> successful_agents d'),
            (initialize_session_state s0)\<lparr>parallel_results := Some r',
               parallel_errors := Some e', parallel_progress := Some d',
               parallel_execution_started := Some True,
               parallel_execution_completed := Some True\<rparr>)"
    by (simp add: out_def execute_agents_parallel_def body)
  show "\<exists>d. parallel_progress (snd out) = Some d \<and> fst out = Inr (5 \<le> successful_agents d) \<and>
             set (keys d) = set (keys (progress0 s0)) \<union> set (keys (agent_config eng)) \<and>
             (distinct (keys (progress0 s0)) \<longrightarrow> distinct (keys d))"
    by (rule exI[of _ d']) (simp add: out ks)
  show "fst (execute_body eng ev c n s0) = fst out" by (simp add: out body)
  show "progress_of (snd out) k =
           (if k \<in> set (keys (agent_config eng)) then Some (final_entry eng ev c n k)
            else progress_of s0 k)"
  proof -
    have "progress_of (snd out) k = map_of d' k" by (simp add: out progress_of_def)
    with maps(1)[unfolded of_initial] show ?thesis by simp
  qed
  show "result_of (snd out) k =
           (if k \<in> set (keys (agent_config eng)) \<and> agents eng k \<noteq> None
            then (case execute_single_agent_with_context eng ev k c n of
                    Inr res \<Rightarrow> Some res | Inl x \<Rightarrow> result_of s0 k)
            else result_of s0 k)"
  proof -
    have "result_of (snd out) k = map_of r' k" by (simp add: out result_of_def)
    with maps(2)[unfolded of_initial] show ?thesis by simp
  qed
  show "error_of (snd out) k =
           (if k \<in> set (keys (agent_config eng)) \<and> agents eng k \<noteq> None
            then (case execute_single_agent_with_context eng ev k c n of
                    Inl x \<Rightarrow> Some (str_exn x) | Inr res \<Rightarrow> error_of s0 k)
            else error_of s0 k)"
  proof -
    have "error_of (snd out) k = map_of e' k" by (simp add: out error_of_def)
    with maps(3)[unfolded of_initial] show ?thesis by simp
  qed
  show "parallel_execution_started (snd out) = Some True"
    and "parallel_execution_completed (snd out) = Some True"
    by (simp_all add: out)
qed

lemma run_failure:
  fixes eng :: engine and ev :: env and c n :: pystr and s0 :: session_state
  assumes "\<not> pool_ready eng ev"
  defines "out \<equiv> execute_agents_parallel eng ev c n s0"
  shows "only_exceptions eng ev c n \<Longrightarrow> fst out = Inr False"
    and "\<exists>x. fst (execute_body eng ev c n s0) = Inl x \<and>
             (only_exceptions eng ev c n \<longrightarrow> is_exception x) \<and>
             (is_exception x \<longrightarrow>
                fst out = Inr False \<and> parallel_execution_completed (snd out) = Some True) \<and>
             (\<not> is_exception x \<longrightarrow> fst out = Inl x) \<and>
             (thread_pool_executor (min 2 (length (agent_config eng))) = Some x \<or>
              (\<exists>a \<in> set (keys (agent_config eng)). agents eng a \<noteq> None \<and>
                 submit_error ev a = Some x \<and>
                 progress_of (snd out) a = Some (start_entry ev a waiting_entry)))"
    and "\<exists>d. parallel_progress (snd out) = Some d \<and>
             set (keys d) = set (keys (progress0 s0)) \<union> set (keys (agent_config eng)) \<and>
             (distinct (keys (progress0 s0)) \<longrightarrow> distinct (keys d))"
    and "if k \<in> set (keys (agent_config eng))
         then progress_of (snd out) k = Some waiting_entry \<or>
              progress_of (snd out) k = Some (start_entry ev k waiting_entry)
         else progress_of (snd out) k = progress_of s0 k"
    and "result_of (snd out) k = result_of s0 k"
    and "error_of (snd out) k = error_of s0 k"
    and "parallel_execution_started (snd out) = Some True"
    and "only_exceptions eng ev c n \<Longrightarrow> parallel_execution_completed (snd out) = Some True"
proof -
  let ?K = "keys (agent_config eng)"
  let ?s1 = "initialize_session_state s0"
  from execute_body_not_ready[OF assms(1), of c n s0] obtain x d' where
    body: "execute_body eng ev c n s0 =
           (Inl x, ?s1\<lparr>parallel_progress := Some d', parallel_execution_started := Some True\<rparr>)"
    and cause: "thread_pool_executor (min 2 (length (agent_config eng))) = Some x \<or>
          (\<exists>a \<in> set ?K. agents eng a \<noteq> None \<and> submit_error ev a = Some x \<and>
             map_of d' a = Some (start_entry ev a waiting_entry))"
    and maps: "\<forall>k. if k \<in> set ?K
              then map_of d' k = Some waiting_entry \<or>
                   map_of d' k = Some (start_entry ev k waiting_entry)
              else map_of d' k = map_of (progress0 s0) k"
    and ks: "set (keys d') = set (keys (progress0 s0)) \<union> set ?K"
     "distinct (keys (progress0 s0)) \<longrightarrow> distinct (keys d')"
    by blast
  have caught: "is_exception x" if "only_exceptions eng ev c n"
    using cause only_exceptionsD(2)[OF that]
    by (auto simp add: thread_pool_executor_def split: if_splits)
  have out: "out = (if is_exception x
      then (Inr False, ?s1\<lparr>parallel_progress := Some d', parallel_execution_started := Some True,
                      parallel_execution_completed := Some True\<rparr>)
      else (Inl x, ?s1\<lparr>parallel_progress := Some d', parallel_execution_started := Some True\<rparr>))"
    by (simp add: out_def execute_agents_parallel_def body)
  show "only_exceptions eng ev c n \<Longrightarrow> fst out = Inr False"
    using caught by (simp add: out)
  have look: "progress_of (snd out) k = map_of d' k" for k
    by (simp add: out progress_of_def)
  show "\<exists>x. fst (execute_body eng ev c n s0) = Inl x \<and>
             (only_exceptions eng ev c n \<longrightarrow> is_exception x) \<and>
             (is_exception x \<longrightarrow>
                fst out = Inr False \<and> parallel_execution_completed (snd out) = Some True) \<and>
             (\<not> is_exception x \<longrightarrow> fst out = Inl x) \<and>
             (thread_pool_executor (min 2 (length (agent_config eng))) = Some x \<or>
              (\<exists>a \<in> set ?K. agents eng a \<noteq> None \<and> submit_error ev a = Some x \<and>
                 progress_of (snd out) a = Some (start_entry ev a waiting_entry)))"
  proof (intro exI[of _ x] conjI impI)
    show "fst out = Inl x" if "\<not> is_exception x" using that by (simp add: out)
    show "fst (execute_body eng ev c n s0) = Inl x" by (simp add: body)
    show "is_exception x" if "only_exceptions eng ev c n" using caught that .
    show "fst out = Inr False" if "is_exception x" using that by (simp add: out)
    show "parallel_execution_completed (snd out) = Some True" if "is_exception x"
      using that by (simp add: out)
    show "thread_pool_executor (min 2 (length (agent_config eng))) = Some x \<or>
              (\<exists>a \<in> set ?K. agents eng a \<noteq> None \<and> submit_error ev a = Some x \<and>
                 progress_of (snd out) a = Some (start_entry ev a waiting_entry))"
      using cause by (simp add: look)
  qed
  show "\<exists>d. parallel_progress (snd out) = Some d \<and>
             set (keys d) = set (keys (progress0 s0)) \<union> set ?K \<and>
             (distinct (keys (progress0 s0)) \<longrightarrow> distinct (keys d))"
    by (rule exI[of _ d']) (simp add: out ks)
  show "if k \<in> set ?K
         then progress_of (snd out) k = Some waiting_entry \<or>
              progress_of (snd out) k = Some (start_entry ev k waiting_entry)
         else progress_of (snd out) k = progress_of s0 k"
    using maps[unfolded of_initial, rule_format, of k] by (simp add: look)
  show "result_of (snd out) k = result_of s0 k"
    by (simp add: out result_of_def initialize_session_state_fields of_initial)
  show "error_of (snd out) k = error_of s0 k"
    by (simp add: out error_of_def initialize_session_state_fields of_initial)
  show "parallel_execution_started (snd out) = Some True"
    by (simp add: out)
  show "only_exceptions eng ev c n \<Longrightarrow> parallel_execution_completed (snd out) = Some True"
    using caught by (simp add: out)
qed

text \<open>
  A third way: the pool takes every submission and a task raises an exception that is
  not an instance of \<open>Exception\<close>. \<open>future.result\<close> raises it again, no clause catches
  it, and it leaves the function; the completed flag stays as
  \<open>initialize_session_state\<close> left it.
\<close>

lemma run_escape:
  fixes eng :: engine and ev :: env and c n :: pystr and s0 :: session_state
  assumes ready: "pool_ready eng ev" and escaping: "\<not> only_exceptions eng ev c n"
  defines "out \<equiv> execute_agents_parallel eng ev c n s0"
  shows "\<exists>x. fst out = Inl x \<and> fst (execute_body eng ev c n s0) = Inl x \<and> \<not> is_exception x \<and>
           (\<exists>a \<in> set (keys (agent_config eng)). agents eng a \<noteq> None \<and>
              execute_single_agent_with_context eng ev a c n = Inl x)"
    and "parallel_execution_completed (snd out)
           = parallel_execution_completed (initialize_session_state s0)"
    and "\<exists>d. parallel_progress (snd out) = Some d \<and>
             set (keys d) = set (keys (progress0 s0)) \<union> set (keys (agent_config eng)) \<and>
             (distinct (keys (progress0 s0)) \<longrightarrow> distinct (keys d))"
    and "k \<in> set (keys (agent_config eng)) \<Longrightarrow> entry_ok (snd out) k"
proof -
  let ?K = "keys (agent_config eng)"
  let ?F = "\<lambda>k. execute_single_agent_with_context eng ev k c n"
  let ?s1 = "initialize_session_state s0"
  from reset_progress_ok[OF initialize_session_state_fields(2), where ks = ?K]
  obtain d1 where d1:
    "reset_progress ?K ?s1 = (None, ?s1\<lparr>parallel_progress := Some d1\<rparr>)"
    "\<forall>k. map_of d1 k = (if k \<in> set ?K then Some waiting_entry else map_of (progress0 s0) k)"
    "set (keys d1) = set (keys (progress0 s0)) \<union> set ?K"
    "distinct (keys (progress0 s0)) \<longrightarrow> distinct (keys d1)"
    by blast
  define s3 where "s3 = ?s1\<lparr>parallel_progress := Some d1, parallel_execution_started := Some True\<rparr>"
  have s3d: "parallel_progress s3 = Some d1" by (simp add: s3_def)
  have pres1: "\<forall>a \<in> set ?K. map_of d1 a \<noteq> None" using d1(2) by simp
  define fa where "fa = map (\<lambda>a. (submit eng ev a c n, a)) (filter (\<lambda>a. agents eng a \<noteq> None) ?K)"
  note pool = pool_readyD(1)[OF ready]
  have accepted: "\<forall>a \<in> set ?K. agents eng a \<noteq> None \<longrightarrow> submit_error ev a = None"
    using pool_readyD(2)[OF ready] by blast
  from submit_agents_ok[OF s3d pres1 accepted, of c n "[]"]
  obtain d2 where d2:
    "submit_agents eng ev c n ?K [] s3 = (Inr fa, s3\<lparr>parallel_progress := Some d2\<rparr>)"
    "keys d2 = keys d1"
    "\<forall>k. map_of d2 k = (if k \<in> set ?K \<and> agents eng k \<noteq> None
                          then map_option (start_entry ev k) (map_of d1 k) else map_of d1 k)"
    unfolding fa_def by auto
  define s4 where "s4 = s3\<lparr>parallel_progress := Some d2\<rparr>"
  have s4r: "parallel_results s4 = Some (results0 s0)"
    and s4e: "parallel_errors s4 = Some (errors0 s0)"
    and s4d: "parallel_progress s4 = Some d2"
    and s4c: "parallel_execution_completed s4 = parallel_execution_completed ?s1"
    by (simp_all add: s4_def s3_def initialize_session_state_fields)
  have "\<forall>(fut, a) \<in> set fa. fut_outcome fut = ?F a \<and>
      (map_of d2 a \<noteq> None \<and> a \<in> set ?K \<and> agents eng a \<noteq> None)"
    using d2(3) d1(2) by (auto simp add: fa_def submit_def)
  from as_completed_finished[OF this, of ev]
  have pres2: "\<forall>(fut, a) \<in> set (as_completed ev fa).
      fut_state fut = FINISHED \<and> fut_outcome fut = ?F a \<and>
      (map_of d2 a \<noteq> None \<and> a \<in> set ?K \<and> agents eng a \<noteq> None)" .
  then have pres3: "\<forall>(fut, a) \<in> set (as_completed ev fa).
      fut_state fut = FINISHED \<and> map_of d2 a \<noteq> None"
    by auto
  have ok4: "\<forall>k \<in> set ?K. entry_ok s4 k"
    using d2(3) d1(2) s4d
    by (auto simp add: entry_ok_def progress_of_def start_entry_def waiting_entry_def)
  from escaping accepted obtain a where
    a: "a \<in> set ?K" "agents eng a \<noteq> None" "raises_base_exception (?F a)"
    by (auto simp add: only_exceptions_def filter_empty_conv submit_raises_base_exception_def)
  then have "a \<in> snd ` set fa" by (force simp add: fa_def)
  then have "a \<in> snd ` set (as_completed ev fa)" by (simp add: as_completed_names)
  then obtain fut where "(fut, a) \<in> set (as_completed ev fa)" by auto
  with pres2 a(3) have bad: "\<exists>(fut, a) \<in> set (as_completed ev fa).
      raises_base_exception (fut_outcome fut)"
    by force
  from collect_results_any[OF s4r s4e s4d pres3 ok4, of ev] obtain res s' d' where
    col: "collect_results ev (as_completed ev fa) s4 = (res, s')"
      "parallel_progress s' = Some d'" "keys d' = keys d2"
      "parallel_execution_completed s' = parallel_execution_completed s4"
      "\<forall>k \<in> set ?K. entry_ok s' k"
      "case res of
         None \<Rightarrow> \<not> (\<exists>(fut, a) \<in> set (as_completed ev fa). raises_base_exception (fut_outcome fut))
       | Some x \<Rightarrow> \<not> is_exception x \<and>
           (\<exists>(fut, a) \<in> set (as_completed ev fa). fut_outcome fut = Inl x)"
    by blast
  from col(6) bad obtain x where x: "res = Some x" "\<not> is_exception x"
    "\<exists>(fut, a) \<in> set (as_completed ev fa). fut_outcome fut = Inl x"
    by (cases res) auto
  have body: "execute_body eng ev c n s0 = (Inl x, s')"
    using d1(1) pool d2(1) col(1) x(1) by (simp add: execute_body_def Let_def s3_def s4_def)
  have out: "out = (Inl x, s')"
    using x(2) by (simp add: out_def execute_agents_parallel_def body)
  from x(3) pres2 have "\<exists>a \<in> set ?K. agents eng a \<noteq> None \<and> ?F a = Inl x"
    by force
  with x(2) show "\<exists>x. fst out = Inl x \<and> fst (execute_body eng ev c n s0) = Inl x \<and>
           \<not> is_exception x \<and> (\<exists>a \<in> set ?K. agents eng a \<noteq> None \<and> ?F a = Inl x)"
    by (simp add: out body)
  show "parallel_execution_completed (snd out) = parallel_execution_completed ?s1"
    using col(4) s4c by (simp add: out)
  show "\<exists>d. parallel_progress (snd out) = Some d \<and>
             set (keys d) = set (keys (progress0 s0)) \<union> set ?K \<and>
             (distinct (keys (progress0 s0)) \<longrightarrow> distinct (keys d))"
    by (rule exI[of _ d']) (simp add: out col(2,3) d2(2) d1(3,4))
  show "entry_ok (snd out) k" if "k \<in> set ?K"
    using col(5) that by (simp add: out)
qed

lemma final_entry_status:
  "status (final_entry eng ev c n k) =
     (if agents eng k = None then Waiting
      else case execute_single_agent_with_context eng ev k c n of
             Inr res \<Rightarrow> Completed | Inl x \<Rightarrow> Error)"
  by (simp add: final_entry_def finish_entry_def start_entry_def waiting_entry_def
      split: sum.splits)

lemma final_entry_end_time:
  "end_time (final_entry eng ev c n k) =
     (if agents eng k = None then None else Some (clock ev (Collected k)))"
  by (simp add: final_entry_def finish_entry_def start_entry_def waiting_entry_def
      split: sum.splits)

lemma final_entry_error:
  "error (final_entry eng ev c n k) =
     (if agents eng k = None then None
      else case execute_single_agent_with_context eng ev k c n of
             Inr res \<Rightarrow> None | Inl x \<Rightarrow> Some (str_exn x))"
  by (simp add: final_entry_def finish_entry_def start_entry_def waiting_entry_def
      split: sum.splits)

lemma no_foreign_progress0:
  "no_foreign_progress eng s \<Longrightarrow>
   distinct (keys (progress0 s)) \<and> set (keys (progress0 s)) \<subseteq> set (keys (agent_config eng))"
  by (simp add: no_foreign_progress_def progress0_def keys_def split: option.splits)

lemma map_of_distinct_keys: "distinct (keys d) \<Longrightarrow> (k, p) \<in> set d \<Longrightarrow> map_of d k = Some p"
  by (simp add: keys_def)

section \<open>Facts about the examples\<close>

lemma distinct_default_agent_config: "distinct (keys default_agent_config)"
  by (simp add: keys_def default_agent_config_def ascii_eq_iff)

lemma context_expert_configured: "ascii ''context_expert'' \<in> set (keys default_agent_config)"
  by (simp add: keys_def default_agent_config_def)

lemma engine_with_simps:
  "agent_config (engine_with x) = default_agent_config"
  "agents (engine_with x) (ascii ''context_expert'') = Some x"
  "k \<in> set (keys default_agent_config) \<Longrightarrow> agents (engine_with x) k \<noteq> None"
  by (simp_all add: engine_with_def)

lemma pool_made: "thread_pool_executor (min 2 (length (agent_config (engine_with x)))) = None"
  by (simp add: thread_pool_executor_def engine_with_def default_agent_config_def)

lemma submissions_accepted_calm: "submissions_accepted eng calm_env"
  by (simp add: submissions_accepted_def calm_env_def filter_empty_conv)

lemma pool_ready_calm: "pool_ready (engine_with x) calm_env"
  by (simp add: pool_ready_def pool_made submissions_accepted_calm)

lemma pool_not_ready_broken: "\<not> pool_ready (engine_with x) broken_pool_env"
proof -
  have "ascii ''context_expert'' \<in> set (keys (agent_config (engine_with x)))"
    by (simp add: engine_with_simps context_expert_configured)
  moreover have "agents (engine_with x) (ascii ''context_expert'') \<noteq> None"
    by (simp add: engine_with_simps)
  moreover have "submit_error broken_pool_env (ascii ''context_expert'') \<noteq> None"
    by (simp add: broken_pool_env_def)
  ultimately show ?thesis
    by (auto simp add: pool_ready_def submissions_accepted_def filter_empty_conv)
qed

lemma no_foreign_progress_fresh: "no_foreign_progress eng fresh_session"
  by (simp add: no_foreign_progress_def fresh_session_def)

lemma executor_returns:
  "agents eng a = Some ag \<Longrightarrow>
   outcome (ag (create_agent_request a c n)) = InvokeReturns (Some ms) \<Longrightarrow> ms \<noteq> [] \<Longrightarrow>
   execute_single_agent_with_context eng ev a c n =
     Inr \<lparr>agent_name = a,
          content = add_completion_signal (get_completion_signal a) (message_text (last ms)),
          token_count = length (split (add_completion_signal (get_completion_signal a)
                                         (message_text (last ms)))),
          execution_time = clock ev (Executed a),
          result_status = ascii ''success''\<rparr>"
  by (cases ms) (simp_all add: execute_single_agent_with_context_def Let_def)


lemma executor_raises:
  "agents eng a = Some ag \<Longrightarrow>
   outcome (ag (create_agent_request a c n)) = InvokeRaises x \<Longrightarrow>
   execute_single_agent_with_context eng ev a c n = Inl x"
  by (simp add: execute_single_agent_with_context_def Let_def)

lemma executor_other_agents:
  assumes "a \<in> set (keys default_agent_config)" "a \<noteq> ascii ''context_expert''"
  shows "\<exists>r. execute_single_agent_with_context (engine_with x) ev a c n = Inr r"
proof -
  have "agents (engine_with x) a = Some answering_agent"
    using assms by (simp add: engine_with_def)
  from executor_returns[OF this, where ms = "[ContentMessage (ascii ''Outlook stable.'')]"]
  show ?thesis by (simp add: answering_agent_def)
qed

lemma only_exceptions_example:
  assumes "\<not> raises_base_exception
     (execute_single_agent_with_context (engine_with x) ev (ascii ''context_expert'') c n)"
    and "ev = calm_env \<or> ev = broken_pool_env"
  shows "only_exceptions (engine_with x) ev c n"
proof -
  have "\<not> raises_base_exception (execute_single_agent_with_context (engine_with x) ev a c n)"
    if "a \<in> set (keys default_agent_config)" for a
    using assms(1) executor_other_agents[OF that, of x ev c n]
    by (cases "a = ascii ''context_expert''") (auto simp add: raises_base_exception_def)
  moreover have "\<not> submit_raises_base_exception ev a" for a
    using assms(2)
    by (auto simp add: submit_raises_base_exception_def calm_env_def broken_pool_env_def
        split: if_splits option.splits)
  ultimately show ?thesis
    by (simp add: only_exceptions_def filter_empty_conv engine_with_simps(1))
qed

lemma returns_is_caught: "\<exists>r. res = Inr r \<Longrightarrow> \<not> raises_base_exception res"
  by (auto simp add: raises_base_exception_def)




lemma executor_answering:
  "\<exists>r. execute_single_agent_with_context (engine_with answering_agent) ev
          (ascii ''context_expert'') c n = Inr r"
  by (simp add: executor_returns[OF engine_with_simps(2), where ms = "[ContentMessage (ascii ''Outlook stable.'')]"]
      answering_agent_def)

lemma executor_raising:
  "execute_single_agent_with_context (engine_with raising_agent) ev (ascii ''context_expert'') c n
     = Inl (OtherException (ascii ''rate limit exceeded''))"
  by (simp add: executor_raises[OF engine_with_simps(2)] raising_agent_def)

lemma context_expert_in_engine:
  "ascii ''context_expert'' \<in> set (keys (agent_config (engine_with x)))"
  by (simp add: engine_with_simps context_expert_configured)

lemma context_expert_loaded: "agents (engine_with x) (ascii ''context_expert'') \<noteq> None"
  by (simp add: engine_with_simps)

lemma progress_of_member:
  "progress_of s a = Some p \<Longrightarrow> \<exists>d. parallel_progress s = Some d \<and> (a, p) \<in> set d"
  by (auto simp add: progress_of_def split: option.splits dest: map_of_SomeD)


lemma only_exceptions_raising: "only_exceptions (engine_with raising_agent) calm_env c n"
  by (rule only_exceptions_example) (simp_all add: executor_raising raises_base_exception_def)

lemma only_exceptions_answering:
  "only_exceptions (engine_with answering_agent) calm_env c n"
  "only_exceptions (engine_with answering_agent) broken_pool_env c n"
  by (rule only_exceptions_example, simp_all add: returns_is_caught[OF executor_answering])+

text \<open>
  The first submission fails: the \<open>try\<close> block raises the \<open>RuntimeError\<close>, the function
  returns \<open>False\<close>, and \<open>context_expert\<close> is left \<open>'starting'\<close>.
\<close>

lemma broken_pool_run:
  fixes x :: agent and c n :: pystr and s :: session_state
  defines "out \<equiv> execute_agents_parallel (engine_with x) broken_pool_env c n s"
  shows "fst (execute_body (engine_with x) broken_pool_env c n s)
           = Inl (RuntimeError (ascii ''cannot start new thread''))"
    and "fst out = Inr False"
    and "parallel_execution_completed (snd out) = Some True"
    and "progress_of (snd out) (ascii ''context_expert'')
           = Some (start_entry broken_pool_env (ascii ''context_expert'') waiting_entry)"
proof -
  from run_failure(2)[OF pool_not_ready_broken, of x c n s] obtain e where
    e: "fst (execute_body (engine_with x) broken_pool_env c n s) = Inl e"
       "is_exception e \<longrightarrow>
          fst out = Inr False \<and> parallel_execution_completed (snd out) = Some True"
       "thread_pool_executor (min 2 (length (agent_config (engine_with x)))) = Some e \<or>
        (\<exists>a \<in> set (keys (agent_config (engine_with x))). agents (engine_with x) a \<noteq> None \<and>
           submit_error broken_pool_env a = Some e \<and>
           progress_of (snd out) a = Some (start_entry broken_pool_env a waiting_entry))"
    unfolding out_def by blast
  from e(3) obtain a where
    a: "submit_error broken_pool_env a = Some e"
       "progress_of (snd out) a = Some (start_entry broken_pool_env a waiting_entry)"
    by (auto simp add: pool_made)
  from a(1) have "a = ascii ''context_expert''"
    and is_e: "e = RuntimeError (ascii ''cannot start new thread'')"
    by (auto simp add: broken_pool_env_def split: if_splits)
  with a(2) show "progress_of (snd out) (ascii ''context_expert'')
           = Some (start_entry broken_pool_env (ascii ''context_expert'') waiting_entry)"
    by simp
  from e(1) is_e show "fst (execute_body (engine_with x) broken_pool_env c n s)
           = Inl (RuntimeError (ascii ''cannot start new thread''))"
    by simp
  from e(2) is_e show "fst out = Inr False"
    and "parallel_execution_completed (snd out) = Some True"
    by simp_all
qed



lemma of_fresh:
  "progress_of fresh_session k = None" "result_of fresh_session k = None"
  "error_of fresh_session k = None"
  by (simp_all add: progress_of_def result_of_def error_of_def fresh_session_def)


lemma executor_slow:
  "\<exists>r. execute_single_agent_with_context (engine_with slow_agent) ev
          (ascii ''context_expert'') c n = Inr r"
  by (simp add: executor_returns[OF engine_with_simps(2),
        where ms = "[ContentMessage (ascii ''Outlook stable.'')]"] slow_agent_def)




text \<open>
  \<open>context_expert\<close> raises \<open>SystemExit\<close>: the exception leaves \<open>execute_agents_parallel\<close>,
  and the completed flag is not set.
\<close>

lemma executor_exiting:
  "execute_single_agent_with_context (engine_with exiting_agent) ev (ascii ''context_expert'') c n
     = Inl (SystemExit (ascii ''shutting down''))"
  by (simp add: executor_raises[OF engine_with_simps(2)] exiting_agent_def)

lemma not_only_exceptions_exiting: "\<not> only_exceptions (engine_with exiting_agent) calm_env c n"
proof
  assume h: "only_exceptions (engine_with exiting_agent) calm_env c n"
  from only_exceptionsD(1)[OF h context_expert_in_engine context_expert_loaded]
  show False by (simp add: executor_exiting raises_base_exception_def)
qed

lemma exiting_run:
  fixes c n :: pystr and s :: session_state
  defines "out \<equiv> execute_agents_parallel (engine_with exiting_agent) calm_env c n s"
  shows "fst out = Inl (SystemExit (ascii ''shutting down''))"
    and "parallel_execution_completed (snd out)
           = parallel_execution_completed (initialize_session_state s)"
proof -
  note esc = not_only_exceptions_exiting[of c n]
  from run_escape(1)[OF pool_ready_calm esc, where ?s0.0 = s] obtain x a where
    x: "fst out = Inl x"
    and a: "a \<in> set (keys (agent_config (engine_with exiting_agent)))"
      "execute_single_agent_with_context (engine_with exiting_agent) calm_env a c n = Inl x"
    unfolding out_def by blast
  have "a = ascii ''context_expert''"
  proof (rule ccontr)
    assume other: "a \<noteq> ascii ''context_expert''"
    from a(1) have "a \<in> set (keys default_agent_config)" by (simp add: engine_with_simps(1))
    from executor_other_agents[OF this other, of exiting_agent calm_env c n] a(2)
    show False by simp
  qed
  with a(2) x show "fst out = Inl (SystemExit (ascii ''shutting down''))"
    by (simp add: executor_exiting)
  from run_escape(2)[OF pool_ready_calm esc, where ?s0.0 = s]
  show "parallel_execution_completed (snd out)
           = parallel_execution_completed (initialize_session_state s)"
    by (simp add: out_def)
qed

lemma completed_flag_fresh:
  "parallel_execution_completed (initialize_session_state fresh_session) = Some False"
  by (simp add: initialize_session_state_def fresh_session_def Let_def)

lemma completed_without_error:
  assumes "\<exists>r. execute_single_agent_with_context (engine_with x) calm_env
          (ascii ''context_expert'') c n = Inr r"
  shows "map_option status (progress_of (snd (execute_agents_parallel (engine_with x) calm_env
            c n s)) (ascii ''context_expert'')) = Some Completed"
    and "result_of (snd (execute_agents_parallel (engine_with x) calm_env c n s))
            (ascii ''context_expert'') \<noteq> None"
    and "error_of (snd (execute_agents_parallel (engine_with x) calm_env c n s))
            (ascii ''context_expert'') = error_of s (ascii ''context_expert'')"
proof -
  note caught = only_exceptions_example[OF returns_is_caught[OF assms] disjI1[OF refl]]
  show "map_option status (progress_of (snd (execute_agents_parallel (engine_with x) calm_env
            c n s)) (ascii ''context_expert'')) = Some Completed"
    and "result_of (snd (execute_agents_parallel (engine_with x) calm_env c n s))
            (ascii ''context_expert'') \<noteq> None"
    and "error_of (snd (execute_agents_parallel (engine_with x) calm_env c n s))
            (ascii ''context_expert'') = error_of s (ascii ''context_expert'')"
    using assms
      run_normal(3)[OF pool_ready_calm caught, where ?s0.0 = s and k = "ascii ''context_expert''"]
      run_normal(4)[OF pool_ready_calm caught, where ?s0.0 = s and k = "ascii ''context_expert''"]
      run_normal(5)[OF pool_ready_calm caught, where ?s0.0 = s and k = "ascii ''context_expert''"]
    by (auto simp add: context_expert_in_engine context_expert_loaded final_entry_status)
qed

lemma of_run_parallel_analysis_reset:
  "error_of (run_parallel_analysis_reset s) k = error_of s k"
  "result_of (run_parallel_analysis_reset s) k = None"
  "progress_of (run_parallel_analysis_reset s) k = None"
  by (simp_all add: error_of_def result_of_def progress_of_def run_parallel_analysis_reset_def)

text \<open>
  The count of \<open>'completed'\<close> entries is the number of loaded configured agents whose
  call returned.
\<close>

lemma successful_agents_card:
  "distinct (keys d) \<Longrightarrow>
   successful_agents d = card {k. \<exists>p. map_of d k = Some p \<and> status p = Completed}"
proof (induction d)
  case Nil
  then show ?case by (simp add: successful_agents_def)
next
  case (Cons kp d)
  obtain k p where kp: "kp = (k, p)" by (cases kp)
  from Cons.prems kp have fresh: "map_of d k = None" and dist: "distinct (keys d)"
    by (auto simp add: keys_def map_of_eq_None_iff)
  let ?A = "{k'. \<exists>p'. map_of d k' = Some p' \<and> status p' = Completed}"
  have fin: "finite ?A"
    by (rule finite_subset[OF _ finite_dom_map_of[of d]]) auto
  have notin: "k \<notin> ?A" using fresh by simp
  show ?case
  proof (cases "status p = Completed")
    case True
    have "{k'. \<exists>p'. map_of (kp # d) k' = Some p' \<and> status p' = Completed} = insert k ?A"
      using fresh True by (auto simp add: kp)
    moreover have "successful_agents (kp # d) = Suc (successful_agents d)"
      using True by (simp add: successful_agents_def kp)
    ultimately show ?thesis using Cons.IH[OF dist] fin notin by simp
  next
    case False
    have "{k'. \<exists>p'. map_of (kp # d) k' = Some p' \<and> status p' = Completed} = ?A"
      using fresh False by (auto simp add: kp)
    moreover have "successful_agents (kp # d) = successful_agents d"
      using False by (simp add: successful_agents_def kp)
    ultimately show ?thesis using Cons.IH[OF dist] by simp
  qed
qed

lemma completed_count_by_outcomes:
  assumes "pool_ready eng ev" "no_foreign_progress eng s" "only_exceptions eng ev c n"
  shows "completed_count (snd (execute_agents_parallel eng ev c n s))
     = card {a \<in> set (keys (agent_config eng)). agents eng a \<noteq> None \<and>
               (\<exists>r. execute_single_agent_with_context eng ev a c n = Inr r)}"
proof -
  let ?out = "execute_agents_parallel eng ev c n s"
  let ?K = "keys (agent_config eng)"
  note clean = no_foreign_progress0[OF assms(2)]
  from run_normal(1)[OF assms(1,3), of s] obtain d where
    d: "parallel_progress (snd ?out) = Some d"
       "set (keys d) = set (keys (progress0 s)) \<union> set ?K"
       "distinct (keys (progress0 s)) \<longrightarrow> distinct (keys d)"
    by blast
  have dist: "distinct (keys d)" using d(3) clean by simp
  have look: "map_of d k = progress_of (snd ?out) k" for k
    using d(1) by (simp add: progress_of_def)
  have pointwise: "(\<exists>p. map_of d k = Some p \<and> status p = Completed) \<longleftrightarrow>
      (k \<in> set ?K \<and> agents eng k \<noteq> None \<and>
        (\<exists>r. execute_single_agent_with_context eng ev k c n = Inr r))" for k
  proof (cases "k \<in> set ?K")
    case True
    then have "map_of d k = Some (final_entry eng ev c n k)"
      using run_normal(3)[OF assms(1,3), of s k] by (simp add: look)
    then show ?thesis
      using True
      by (cases "execute_single_agent_with_context eng ev k c n")
         (auto simp add: final_entry_status)
  next
    case False
    with clean have "k \<notin> set (keys (progress0 s))" by auto
    then have "map_of (progress0 s) k = None" by (simp add: keys_def map_of_eq_None_iff)
    then have "map_of d k = None"
      using False run_normal(3)[OF assms(1,3), of s k] by (simp add: look of_initial)
    with False show ?thesis by simp
  qed
  have "{k. \<exists>p. map_of d k = Some p \<and> status p = Completed}
      = {a \<in> set ?K. agents eng a \<noteq> None \<and>
               (\<exists>r. execute_single_agent_with_context eng ev a c n = Inr r)}"
    using pointwise by blast
  with successful_agents_card[OF dist] d(1) show ?thesis
    by (simp add: completed_count_def)
qed

lemma seven_completed:
  "completed_count (snd (execute_agents_parallel (engine_with raising_agent) calm_env c n
      fresh_session)) = 7"
proof -
  let ?K = "keys default_agent_config"
  have "{a \<in> set (keys (agent_config (engine_with raising_agent))).
          agents (engine_with raising_agent) a \<noteq> None \<and>
          (\<exists>r. execute_single_agent_with_context (engine_with raising_agent) calm_env a c n = Inr r)}
        = set ?K - {ascii ''context_expert''}"
    using executor_other_agents[of _ raising_agent calm_env c n] engine_with_simps(3)[of _ raising_agent]
    by (auto simp add: engine_with_simps(1) executor_raising)
  moreover have "card (set ?K - {ascii ''context_expert''}) = 7"
  proof -
    have "card (set ?K) = 8"
      using distinct_card[OF distinct_default_agent_config]
      by (simp add: keys_def default_agent_config_def)
    then show ?thesis using context_expert_configured by simp
  qed
  ultimately show ?thesis
    using completed_count_by_outcomes[OF pool_ready_calm no_foreign_progress_fresh
        only_exceptions_raising]
    by simp
qed

section \<open>Properties of a run\<close>

text \<open>
  Claim C1. Whenever \<open>execute_agents_parallel\<close> returns, it returns \<open>True\<close> exactly
  when at least five progress entries have the status \<open>'completed'\<close> at the end of the
  run; and it does return this value when no task and no submission raises an
  exception outside \<open>Exception\<close>, whatever else the agents did. This holds for every
  run whose worker pool takes all submissions, from any session state; when the pool
  cannot be made or a submission fails, the function returns \<open>False\<close>, and then no
  entry is \<open>'completed'\<close> provided the progress dictionary held no key outside the
  configuration.
\<close>

theorem quorum_law:
  "pool_ready eng ev \<or> no_foreign_progress eng s \<Longrightarrow>
   (only_exceptions eng ev c n \<longrightarrow>
      fst (execute_agents_parallel eng ev c n s)
        = Inr (5 \<le> completed_count (snd (execute_agents_parallel eng ev c n s)))) \<and>
   (\<forall>b. fst (execute_agents_parallel eng ev c n s) = Inr b \<longrightarrow>
      b = (5 \<le> completed_count (snd (execute_agents_parallel eng ev c n s))))"
proof -
  assume h: "pool_ready eng ev \<or> no_foreign_progress eng s"
  let ?out = "execute_agents_parallel eng ev c n s"
  have main: "fst ?out = Inr (5 \<le> completed_count (snd ?out))"
    if returns: "only_exceptions eng ev c n \<or> (\<exists>b. fst ?out = Inr b)"
  proof (cases "pool_ready eng ev")
    case True
    have caught: "only_exceptions eng ev c n"
    proof (rule ccontr)
      assume esc: "\<not> only_exceptions eng ev c n"
      from run_escape(1)[OF True esc, where ?s0.0 = s] returns esc show False by auto
    qed
    from run_normal(1)[OF True caught, where ?s0.0 = s] show ?thesis
      by (auto simp add: completed_count_def)
  next
    case False
    with h have clean: "no_foreign_progress eng s" by simp
    from run_failure(3)[OF False, where ?s0.0 = s and c = c and n = n] obtain d where
      d: "parallel_progress (snd ?out) = Some d"
         "set (keys d) = set (keys (progress0 s)) \<union> set (keys (agent_config eng))"
         "distinct (keys (progress0 s)) \<longrightarrow> distinct (keys d)"
      by blast
    have none: "status p \<noteq> Completed" if "(k, p) \<in> set d" for k p
    proof -
      from d(3) no_foreign_progress0[OF clean] have "distinct (keys d)" by simp
      from map_of_distinct_keys[OF this that] d(1)
      have look: "progress_of (snd ?out) k = Some p" by (simp add: progress_of_def)
      from that have "k \<in> set (keys d)" by (force simp add: keys_def)
      with d(2) no_foreign_progress0[OF clean] have "k \<in> set (keys (agent_config eng))" by auto
      with run_failure(4)[OF False, where ?s0.0 = s and c = c and n = n and k = k] look
      have "p = waiting_entry \<or> p = start_entry ev k waiting_entry" by simp
      then show ?thesis by (auto simp add: waiting_entry_def start_entry_def)
    qed
    have "filter (\<lambda>(a, p). status p = Completed) d = []"
      using none by (auto simp add: filter_empty_conv)
    then have count: "completed_count (snd ?out) = 0"
      using d(1) by (simp add: completed_count_def successful_agents_def)
    from run_failure(2)[OF False, where ?s0.0 = s and c = c and n = n] obtain x where
      x: "only_exceptions eng ev c n \<longrightarrow> is_exception x"
         "is_exception x \<longrightarrow> fst ?out = Inr False"
         "\<not> is_exception x \<longrightarrow> fst ?out = Inl x"
      by blast
    have "fst ?out = Inr False"
      using returns x by (cases "is_exception x") auto
    with count show ?thesis by simp
  qed
  show ?thesis
  proof (intro conjI impI allI)
    assume "only_exceptions eng ev c n"
    then show "fst ?out = Inr (5 \<le> completed_count (snd ?out))" using main by blast
  next
    fix b assume b: "fst ?out = Inr b"
    then have "fst ?out = Inr (5 \<le> completed_count (snd ?out))" using main by blast
    with b show "b = (5 \<le> completed_count (snd ?out))" by simp
  qed
qed

text \<open>
  The quorum law at the configuration of the source, in a new session: seven of the
  eight agents succeed, the eighth raises an \<open>Exception\<close>, and the run returns \<open>True\<close>.
\<close>

theorem quorum_law_witness:
  "(pool_ready (engine_with raising_agent) calm_env \<or>
      no_foreign_progress (engine_with raising_agent) fresh_session) \<and>
   only_exceptions (engine_with raising_agent) calm_env (ascii ''005930'') (ascii ''Samsung'') \<and>
   completed_count (snd (execute_agents_parallel (engine_with raising_agent)
          calm_env (ascii ''005930'') (ascii ''Samsung'') fresh_session)) = 7 \<and>
   fst (execute_agents_parallel (engine_with raising_agent) calm_env
          (ascii ''005930'') (ascii ''Samsung'') fresh_session) = Inr True"
proof -
  have h: "pool_ready (engine_with raising_agent) calm_env \<or>
      no_foreign_progress (engine_with raising_agent) fresh_session"
    by (simp add: pool_ready_calm)
  note caught = only_exceptions_raising[of "ascii ''005930''" "ascii ''Samsung''"]
  from quorum_law [OF h, where c = "ascii ''005930''" and n = "ascii ''Samsung''"] caught
  have "fst (execute_agents_parallel (engine_with raising_agent) calm_env
          (ascii ''005930'') (ascii ''Samsung'') fresh_session)
        = Inr (5 \<le> completed_count (snd (execute_agents_parallel (engine_with raising_agent)
          calm_env (ascii ''005930'') (ascii ''Samsung'') fresh_session)))"
    by blast
  with h caught seven_completed[of "ascii ''005930''" "ascii ''Samsung''"]
  show ?thesis by simp
qed

text \<open>
  Claim C2, as the code has it. An exception of the \<open>try\<close> block that is an instance
  of \<open>Exception\<close>, such as the failure of a submission to the pool, does not reach the
  caller: the \<open>except Exception\<close> clause sets the completed flag and returns \<open>False\<close>.
  The failure of a task with an instance of \<open>Exception\<close> is recorded in the errors
  dictionary and in the progress entry, and is not raised either. An exception that is
  not an instance of \<open>Exception\<close> (\<open>SystemExit\<close>, \<open>KeyboardInterrupt\<close>) raised by a task
  is raised again by \<open>future.result\<close>, passes both \<open>except\<close> clauses and leaves
  \<open>execute_agents_parallel\<close>, with the completed flag as \<open>initialize_session_state\<close>
  left it. Only such an exception leaves the function.
\<close>

theorem scheduler_errors_are_caught:
  fixes eng :: engine and ev :: env and c n :: pystr and s :: session_state
  defines "out \<equiv> execute_agents_parallel eng ev c n s"
  shows "(\<forall>x. fst out = Inl x \<longrightarrow> \<not> is_exception x) \<and>
         (\<forall>x. fst (execute_body eng ev c n s) = Inl x \<and> is_exception x \<longrightarrow>
            fst out = Inr False \<and> parallel_execution_completed (snd out) = Some True) \<and>
         (\<not> pool_ready eng ev \<and> only_exceptions eng ev c n \<longrightarrow>
            (\<exists>x. fst (execute_body eng ev c n s) = Inl x \<and> is_exception x) \<and>
            fst out = Inr False \<and> parallel_execution_completed (snd out) = Some True) \<and>
         (pool_ready eng ev \<and> only_exceptions eng ev c n \<longrightarrow>
            (\<exists>b. fst out = Inr b) \<and>
            (\<forall>a x. a \<in> set (keys (agent_config eng)) \<and> agents eng a \<noteq> None \<and>
               execute_single_agent_with_context eng ev a c n = Inl x \<longrightarrow>
               error_of (snd out) a = Some (str_exn x) \<and>
               map_option status (progress_of (snd out) a) = Some Error)) \<and>
         (pool_ready eng ev \<and> \<not> only_exceptions eng ev c n \<longrightarrow>
            (\<exists>x. fst out = Inl x \<and> \<not> is_exception x \<and>
               (\<exists>a \<in> set (keys (agent_config eng)). agents eng a \<noteq> None \<and>
                  execute_single_agent_with_context eng ev a c n = Inl x)) \<and>
            parallel_execution_completed (snd out)
              = parallel_execution_completed (initialize_session_state s))"
proof -
  have c1: "\<forall>x. fst out = Inl x \<longrightarrow> \<not> is_exception x"
    by (auto simp add: out_def execute_agents_parallel_def split: prod.splits sum.splits if_splits)
  have c2: "\<forall>x. fst (execute_body eng ev c n s) = Inl x \<and> is_exception x \<longrightarrow>
            fst out = Inr False \<and> parallel_execution_completed (snd out) = Some True"
    by (auto simp add: out_def execute_agents_parallel_def split: prod.splits sum.splits)
  have c3: "(\<exists>x. fst (execute_body eng ev c n s) = Inl x \<and> is_exception x) \<and>
            fst out = Inr False \<and> parallel_execution_completed (snd out) = Some True"
    if "\<not> pool_ready eng ev \<and> only_exceptions eng ev c n"
  proof -
    from that have failed: "\<not> pool_ready eng ev" and caught: "only_exceptions eng ev c n"
      by simp_all
    from run_failure(2)[OF failed, where ?s0.0 = s and c = c and n = n] caught
    have "\<exists>x. fst (execute_body eng ev c n s) = Inl x \<and> is_exception x" by blast
    with run_failure(1)[OF failed caught, where ?s0.0 = s]
      run_failure(8)[OF failed caught, where ?s0.0 = s]
    show ?thesis by (simp add: out_def)
  qed
  have c4: "(\<exists>b. fst out = Inr b) \<and>
            (\<forall>a x. a \<in> set (keys (agent_config eng)) \<and> agents eng a \<noteq> None \<and>
               execute_single_agent_with_context eng ev a c n = Inl x \<longrightarrow>
               error_of (snd out) a = Some (str_exn x) \<and>
               map_option status (progress_of (snd out) a) = Some Error)"
    if "pool_ready eng ev \<and> only_exceptions eng ev c n"
  proof (intro conjI allI impI)
    from that have ready: "pool_ready eng ev" and caught: "only_exceptions eng ev c n"
      by simp_all
    from run_normal(1)[OF ready caught, where ?s0.0 = s]
    show "\<exists>b. fst out = Inr b" by (auto simp add: out_def)
    fix a x
    assume h: "a \<in> set (keys (agent_config eng)) \<and> agents eng a \<noteq> None \<and>
               execute_single_agent_with_context eng ev a c n = Inl x"
    from run_normal(5)[OF ready caught, where ?s0.0 = s and k = a] h
    show "error_of (snd out) a = Some (str_exn x)" by (simp add: out_def)
    from run_normal(3)[OF ready caught, where ?s0.0 = s and k = a] h
    show "map_option status (progress_of (snd out) a) = Some Error"
      by (simp add: out_def final_entry_status)
  qed
  have c5: "(\<exists>x. fst out = Inl x \<and> \<not> is_exception x \<and>
               (\<exists>a \<in> set (keys (agent_config eng)). agents eng a \<noteq> None \<and>
                  execute_single_agent_with_context eng ev a c n = Inl x)) \<and>
            parallel_execution_completed (snd out)
              = parallel_execution_completed (initialize_session_state s)"
    if "pool_ready eng ev \<and> \<not> only_exceptions eng ev c n"
  proof -
    from that have ready: "pool_ready eng ev" and esc: "\<not> only_exceptions eng ev c n"
      by simp_all
    from run_escape(1)[OF ready esc, where ?s0.0 = s]
      run_escape(2)[OF ready esc, where ?s0.0 = s]
    show ?thesis unfolding out_def by blast
  qed
  from c1 c2 c3 c4 c5 show ?thesis by blast
qed

text \<open>
  C2 at a pool that refuses the first submission, at a run in which \<open>context_expert\<close>
  raises an \<open>Exception\<close>, and at a run in which it raises \<open>SystemExit\<close>.
\<close>

theorem scheduler_errors_are_caught_witness:
  "\<not> pool_ready (engine_with answering_agent) broken_pool_env \<and>
   only_exceptions (engine_with answering_agent) broken_pool_env (ascii ''005930'')
      (ascii ''Samsung'') \<and>
   fst (execute_body (engine_with answering_agent) broken_pool_env (ascii ''005930'')
          (ascii ''Samsung'') fresh_session)
     = Inl (RuntimeError (ascii ''cannot start new thread'')) \<and>
   is_exception (RuntimeError (ascii ''cannot start new thread'')) \<and>
   fst (execute_agents_parallel (engine_with answering_agent) broken_pool_env (ascii ''005930'')
          (ascii ''Samsung'') fresh_session) = Inr False \<and>
   parallel_execution_completed (snd (execute_agents_parallel (engine_with answering_agent)
          broken_pool_env (ascii ''005930'') (ascii ''Samsung'') fresh_session)) = Some True \<and>
   pool_ready (engine_with raising_agent) calm_env \<and>
   only_exceptions (engine_with raising_agent) calm_env (ascii ''005930'') (ascii ''Samsung'') \<and>
   ascii ''context_expert'' \<in> set (keys (agent_config (engine_with raising_agent))) \<and>
   agents (engine_with raising_agent) (ascii ''context_expert'') \<noteq> None \<and>
   execute_single_agent_with_context (engine_with raising_agent) calm_env
       (ascii ''context_expert'') (ascii ''005930'') (ascii ''Samsung'')
     = Inl (OtherException (ascii ''rate limit exceeded'')) \<and>
   (\<exists>b. fst (execute_agents_parallel (engine_with raising_agent) calm_env (ascii ''005930'')
          (ascii ''Samsung'') fresh_session) = Inr b) \<and>
   error_of (snd (execute_agents_parallel (engine_with raising_agent) calm_env (ascii ''005930'')
          (ascii ''Samsung'') fresh_session)) (ascii ''context_expert'')
     = Some (ascii ''rate limit exceeded'') \<and>
   map_option status (progress_of (snd (execute_agents_parallel (engine_with raising_agent)
          calm_env (ascii ''005930'') (ascii ''Samsung'') fresh_session))
          (ascii ''context_expert'')) = Some Error \<and>
   pool_ready (engine_with exiting_agent) calm_env \<and>
   \<not> only_exceptions (engine_with exiting_agent) calm_env (ascii ''005930'') (ascii ''Samsung'') \<and>
   (\<exists>x. fst (execute_agents_parallel (engine_with exiting_agent) calm_env (ascii ''005930'')
          (ascii ''Samsung'') fresh_session) = Inl x \<and> \<not> is_exception x) \<and>
   parallel_execution_completed (snd (execute_agents_parallel (engine_with exiting_agent)
          calm_env (ascii ''005930'') (ascii ''Samsung'') fresh_session)) = Some False"
proof -
  let ?c = "ascii ''005930''" and ?n = "ascii ''Samsung''"
  note broken = broken_pool_run(1)[where x = answering_agent and c = ?c and n = ?n
      and s = fresh_session]
  note failed = pool_not_ready_broken[of answering_agent]
  note caught_a = only_exceptions_answering(2)[of ?c ?n]
  note raising = executor_raising[of calm_env ?c ?n]
  note caught_r = only_exceptions_raising[of ?c ?n]
  note esc = not_only_exceptions_exiting[of ?c ?n]
  have ie: "is_exception (RuntimeError (ascii ''cannot start new thread''))" by simp
  from scheduler_errors_are_caught [of "engine_with answering_agent" broken_pool_env
      ?c ?n fresh_session] broken ie
  have part1: "fst (execute_agents_parallel (engine_with answering_agent) broken_pool_env
          ?c ?n fresh_session) = Inr False \<and>
      parallel_execution_completed (snd (execute_agents_parallel (engine_with answering_agent)
          broken_pool_env ?c ?n fresh_session)) = Some True"
    by blast
  from scheduler_errors_are_caught [of "engine_with raising_agent" calm_env
      ?c ?n fresh_session]
    pool_ready_calm[of raising_agent] caught_r context_expert_in_engine[of raising_agent]
    context_expert_loaded[of raising_agent] raising
  have part2: "(\<exists>b. fst (execute_agents_parallel (engine_with raising_agent) calm_env
          ?c ?n fresh_session) = Inr b) \<and>
      error_of (snd (execute_agents_parallel (engine_with raising_agent) calm_env ?c ?n
          fresh_session)) (ascii ''context_expert'')
        = Some (str_exn (OtherException (ascii ''rate limit exceeded''))) \<and>
      map_option status (progress_of (snd (execute_agents_parallel (engine_with raising_agent)
          calm_env ?c ?n fresh_session))
          (ascii ''context_expert'')) = Some Error"
    by blast
  from scheduler_errors_are_caught [of "engine_with exiting_agent" calm_env
      ?c ?n fresh_session]
    pool_ready_calm[of exiting_agent] esc
  have part3: "(\<exists>x. fst (execute_agents_parallel (engine_with exiting_agent) calm_env
          ?c ?n fresh_session) = Inl x \<and> \<not> is_exception x) \<and>
      parallel_execution_completed (snd (execute_agents_parallel (engine_with exiting_agent)
          calm_env ?c ?n fresh_session))
        = parallel_execution_completed (initialize_session_state fresh_session)"
    by blast
  show ?thesis
    using broken failed caught_a raising caught_r esc part1 part2 part3
      pool_ready_calm[of raising_agent] pool_ready_calm[of exiting_agent]
      context_expert_in_engine[of raising_agent] context_expert_loaded[of raising_agent]
    by (simp add: completed_flag_fresh)
qed

text \<open>
  The claim as the specification states it is false in both halves. The pool refuses
  the submission of \<open>context_expert\<close>: the \<open>try\<close> block raises the \<open>RuntimeError\<close> after
  the entry was set to \<open>'starting'\<close>, and the caller gets the value \<open>False\<close>, not an
  error. And a task that raises \<open>SystemExit\<close> is not only recorded: the exception is
  thrown to the caller of \<open>execute_agents_parallel\<close>.
\<close>

theorem scheduler_exception_counterexample:
  "submit_error broken_pool_env (ascii ''context_expert'')
     = Some (RuntimeError (ascii ''cannot start new thread'')) \<and>
   fst (execute_body (engine_with answering_agent) broken_pool_env (ascii ''005930'')
          (ascii ''Samsung'') fresh_session)
     = Inl (RuntimeError (ascii ''cannot start new thread'')) \<and>
   map_option status (progress_of (snd (execute_agents_parallel (engine_with answering_agent)
          broken_pool_env (ascii ''005930'') (ascii ''Samsung'') fresh_session))
          (ascii ''context_expert'')) = Some Starting \<and>
   fst (execute_agents_parallel (engine_with answering_agent) broken_pool_env (ascii ''005930'')
          (ascii ''Samsung'') fresh_session) = Inr False \<and>
   execute_single_agent_with_context (engine_with exiting_agent) calm_env
       (ascii ''context_expert'') (ascii ''005930'') (ascii ''Samsung'')
     = Inl (SystemExit (ascii ''shutting down'')) \<and>
   fst (execute_agents_parallel (engine_with exiting_agent) calm_env (ascii ''005930'')
          (ascii ''Samsung'') fresh_session) = Inl (SystemExit (ascii ''shutting down''))"
proof -
  let ?c = "ascii ''005930''" and ?n = "ascii ''Samsung''"
  have refused: "submit_error broken_pool_env (ascii ''context_expert'')
     = Some (RuntimeError (ascii ''cannot start new thread''))"
    by (simp add: broken_pool_env_def)
  have starting: "map_option status (progress_of (snd (execute_agents_parallel
          (engine_with answering_agent) broken_pool_env ?c ?n fresh_session))
          (ascii ''context_expert'')) = Some Starting"
    using broken_pool_run(4)[where x = answering_agent and c = ?c and n = ?n
        and s = fresh_session]
    by (simp add: start_entry_def)
  from refused starting
    broken_pool_run(1,2)[where x = answering_agent and c = ?c and n = ?n and s = fresh_session]
    executor_exiting[of calm_env ?c ?n] exiting_run(1)[where c = ?c and n = ?n and s = fresh_session]
  show ?thesis by simp
qed




text \<open>
  Claim C4 fails on the code. \<open>context_expert\<close> answers after 400 seconds. Asking its
  future for the result while it runs, with the timeout of 300 seconds, would raise
  \<open>TimeoutError\<close>; but the collection loop asks only futures that \<open>as_completed\<close> has
  yielded, which are finished, so the task is recorded as \<open>'completed'\<close> and no error
  is recorded.
\<close>

theorem timeout_not_enforced:
  "worker_seconds (engine_with slow_agent) (ascii ''context_expert'') (ascii ''005930'')
      (ascii ''Samsung'') = 400 \<and>
   future_result (submit (engine_with slow_agent) calm_env (ascii ''context_expert'')
      (ascii ''005930'') (ascii ''Samsung'')) 300 = Inl TimeoutError \<and>
   map_option status (progress_of (snd (execute_agents_parallel (engine_with slow_agent)
      calm_env (ascii ''005930'') (ascii ''Samsung'') fresh_session)) (ascii ''context_expert''))
     = Some Completed \<and>
   error_of (snd (execute_agents_parallel (engine_with slow_agent)
      calm_env (ascii ''005930'') (ascii ''Samsung'') fresh_session)) (ascii ''context_expert'')
     = None"
proof -
  have secs: "worker_seconds (engine_with slow_agent) (ascii ''context_expert'') (ascii ''005930'')
      (ascii ''Samsung'') = 400"
    by (simp add: worker_seconds_def engine_with_simps slow_agent_def)
  then have "future_result (submit (engine_with slow_agent) calm_env (ascii ''context_expert'')
      (ascii ''005930'') (ascii ''Samsung'')) 300 = Inl TimeoutError"
    by (simp add: future_result_def submit_def)
  with secs completed_without_error(1,3)[OF executor_slow, of "ascii ''005930''"
      "ascii ''Samsung''" fresh_session]
  show ?thesis by (simp add: of_fresh)
qed

text \<open>
  Claim C6 fails on the code. In a first run \<open>context_expert\<close> raises, and its message
  is stored in the errors dictionary. \<open>run_parallel_analysis\<close> then starts a second run,
  in which \<open>context_expert\<close> succeeds: the agent is \<open>'completed'\<close> and has a result,
  and the error of the first run is still there, since neither the assignments of
  \<open>run_parallel_analysis\<close> nor \<open>initialize_session_state\<close> clear
  \<open>parallel_errors\<close>. \<open>_reset_parallel_execution\<close> does clear it.
\<close>

theorem stale_error_survives_run_start:
  "error_of (snd (run_parallel_analysis (engine_with raising_agent) calm_env (ascii ''005930'')
      (ascii ''Samsung'') fresh_session)) (ascii ''context_expert'')
     = Some (ascii ''rate limit exceeded'') \<and>
   map_option status (progress_of
      (snd (run_parallel_analysis (engine_with answering_agent) calm_env (ascii ''005930'')
         (ascii ''Samsung'')
         (snd (run_parallel_analysis (engine_with raising_agent) calm_env (ascii ''005930'')
            (ascii ''Samsung'') fresh_session))))
      (ascii ''context_expert'')) = Some Completed \<and>
   result_of
      (snd (run_parallel_analysis (engine_with answering_agent) calm_env (ascii ''005930'')
         (ascii ''Samsung'')
         (snd (run_parallel_analysis (engine_with raising_agent) calm_env (ascii ''005930'')
            (ascii ''Samsung'') fresh_session))))
      (ascii ''context_expert'') \<noteq> None \<and>
   error_of
      (snd (run_parallel_analysis (engine_with answering_agent) calm_env (ascii ''005930'')
         (ascii ''Samsung'')
         (snd (run_parallel_analysis (engine_with raising_agent) calm_env (ascii ''005930'')
            (ascii ''Samsung'') fresh_session))))
      (ascii ''context_expert'') = Some (ascii ''rate limit exceeded'') \<and>
   parallel_errors (reset_parallel_execution
      (snd (run_parallel_analysis (engine_with raising_agent) calm_env (ascii ''005930'')
         (ascii ''Samsung'') fresh_session))) = None"
proof -
  let ?a = "ascii ''context_expert''"
  let ?c = "ascii ''005930''" and ?n = "ascii ''Samsung''"
  let ?S1 = "snd (run_parallel_analysis (engine_with raising_agent) calm_env ?c ?n fresh_session)"
  have first: "error_of ?S1 ?a = Some (ascii ''rate limit exceeded'')"
    using run_normal(5)[OF pool_ready_calm only_exceptions_raising[of ?c ?n],
        where ?s0.0 = "run_parallel_analysis_reset fresh_session" and k = ?a]
    by (simp add: run_parallel_analysis_def context_expert_in_engine context_expert_loaded
        executor_raising)
  from completed_without_error[OF executor_answering, of ?c ?n "run_parallel_analysis_reset ?S1"]
  have second: "map_option status (progress_of
      (snd (run_parallel_analysis (engine_with answering_agent) calm_env ?c ?n ?S1)) ?a)
        = Some Completed"
    "result_of (snd (run_parallel_analysis (engine_with answering_agent) calm_env ?c ?n ?S1)) ?a
        \<noteq> None"
    "error_of (snd (run_parallel_analysis (engine_with answering_agent) calm_env ?c ?n ?S1)) ?a
        = error_of ?S1 ?a"
    by (simp_all add: run_parallel_analysis_def of_run_parallel_analysis_reset)
  have third: "parallel_errors (reset_parallel_execution ?S1) = None"
    by (simp add: reset_parallel_execution_def)
  from first second third show ?thesis by simp
qed



text \<open>
  Claim C8. At the end of every run, also of one that an exception leaves, for every
  configured agent: an entry with status \<open>'completed'\<close> has an end time and the agent
  has an entry in the results dictionary; an entry with status \<open>'error'\<close> has an error
  message. When the progress dictionary held no foreign key at the start, this is so
  for every entry of the progress dictionary.
\<close>

theorem progress_invariant:
  fixes eng :: engine and ev :: env and c n :: pystr and s :: session_state
  defines "s' \<equiv> snd (execute_agents_parallel eng ev c n s)"
  shows "(\<forall>a \<in> set (keys (agent_config eng)). \<forall>p. progress_of s' a = Some p \<longrightarrow>
            (status p = Completed \<longrightarrow> end_time p \<noteq> None \<and> result_of s' a \<noteq> None) \<and>
            (status p = Error \<longrightarrow> error p \<noteq> None)) \<and>
         (no_foreign_progress eng s \<longrightarrow>
            (\<forall>d. parallel_progress s' = Some d \<longrightarrow>
               (\<forall>(a, p) \<in> set d.
                  (status p = Completed \<longrightarrow> end_time p \<noteq> None \<and> result_of s' a \<noteq> None) \<and>
                  (status p = Error \<longrightarrow> error p \<noteq> None))))"
proof -
  let ?K = "keys (agent_config eng)"
  have part1: "(status p = Completed \<longrightarrow> end_time p \<noteq> None \<and> result_of s' a \<noteq> None) \<and>
            (status p = Error \<longrightarrow> error p \<noteq> None)"
    if "a \<in> set ?K" "progress_of s' a = Some p" for a p
  proof (cases "pool_ready eng ev")
    case True
    note ready = this
    show ?thesis
    proof (cases "only_exceptions eng ev c n")
      case True
      from run_normal(3)[OF ready True, where ?s0.0 = s and k = a] that
      have p: "p = final_entry eng ev c n a" by (simp add: s'_def)
      show ?thesis
        using run_normal(4)[OF ready True, where ?s0.0 = s and k = a] that(1)
        by (auto simp add: p s'_def final_entry_status final_entry_end_time final_entry_error
            split: sum.splits if_splits)
    next
      case False
      from run_escape(4)[OF ready False that(1), where ?s0.0 = s]
      have "entry_ok s' a" by (simp add: s'_def)
      with that(2) show ?thesis by (auto simp add: entry_ok_def)
    qed
  next
    case False
    from run_failure(4)[OF False, where ?s0.0 = s and c = c and n = n and k = a] that
    have "p = waiting_entry \<or> p = start_entry ev a waiting_entry" by (simp add: s'_def)
    then show ?thesis by (auto simp add: waiting_entry_def start_entry_def)
  qed
  have part2: "(status p = Completed \<longrightarrow> end_time p \<noteq> None \<and> result_of s' a \<noteq> None) \<and>
            (status p = Error \<longrightarrow> error p \<noteq> None)"
    if clean: "no_foreign_progress eng s" and d: "parallel_progress s' = Some d"
      and mem: "(a, p) \<in> set d" for d a p
  proof -
    have "\<exists>d. parallel_progress s' = Some d \<and>
         set (keys d) = set (keys (progress0 s)) \<union> set ?K \<and>
         (distinct (keys (progress0 s)) \<longrightarrow> distinct (keys d))"
    proof (cases "pool_ready eng ev")
      case True
      note ready = this
      show ?thesis
      proof (cases "only_exceptions eng ev c n")
        case True
        from run_normal(1)[OF ready True, where ?s0.0 = s] show ?thesis
          by (auto simp add: s'_def)
      next
        case False
        from run_escape(3)[OF ready False, where ?s0.0 = s] show ?thesis
          by (simp add: s'_def)
      qed
    next
      case False
      from run_failure(3)[OF False, where ?s0.0 = s and c = c and n = n] show ?thesis
        by (simp add: s'_def)
    qed
    with d have "set (keys d) = set (keys (progress0 s)) \<union> set ?K \<and>
          (distinct (keys (progress0 s)) \<longrightarrow> distinct (keys d))"
      by auto
    with no_foreign_progress0[OF clean] have dist: "distinct (keys d)"
      and ks: "set (keys d) = set ?K" by auto
    from mem ks have ak: "a \<in> set ?K" by (force simp add: keys_def)
    from map_of_distinct_keys[OF dist mem] d have "progress_of s' a = Some p"
      by (simp add: progress_of_def)
    from part1[OF ak this] show ?thesis .
  qed
  from part1 part2 show ?thesis by blast
qed

text \<open>
  The invariant of C8 at a completed and at a failed task of the source's
  configuration.
\<close>

theorem progress_invariant_witness:
  "ascii ''context_expert'' \<in> set (keys (agent_config (engine_with answering_agent))) \<and>
   no_foreign_progress (engine_with answering_agent) fresh_session \<and>
   (\<exists>d p. parallel_progress (snd (execute_agents_parallel (engine_with answering_agent) calm_env
              (ascii ''005930'') (ascii ''Samsung'') fresh_session)) = Some d \<and>
      (ascii ''context_expert'', p) \<in> set d \<and>
      progress_of (snd (execute_agents_parallel (engine_with answering_agent) calm_env
              (ascii ''005930'') (ascii ''Samsung'') fresh_session)) (ascii ''context_expert'')
        = Some p \<and>
      status p = Completed \<and> end_time p \<noteq> None \<and>
      result_of (snd (execute_agents_parallel (engine_with answering_agent) calm_env
              (ascii ''005930'') (ascii ''Samsung'') fresh_session)) (ascii ''context_expert'')
        \<noteq> None) \<and>
   ascii ''context_expert'' \<in> set (keys (agent_config (engine_with raising_agent))) \<and>
   (\<exists>p. progress_of (snd (execute_agents_parallel (engine_with raising_agent) calm_env
              (ascii ''005930'') (ascii ''Samsung'') fresh_session)) (ascii ''context_expert'')
        = Some p \<and>
      status p = Error \<and> error p \<noteq> None)"
proof -
  let ?a = "ascii ''context_expert''"
  let ?S1 = "snd (execute_agents_parallel (engine_with answering_agent) calm_env
              (ascii ''005930'') (ascii ''Samsung'') fresh_session)"
  let ?S2 = "snd (execute_agents_parallel (engine_with raising_agent) calm_env
              (ascii ''005930'') (ascii ''Samsung'') fresh_session)"
  let ?p1 = "final_entry (engine_with answering_agent) calm_env (ascii ''005930'') (ascii ''Samsung'') ?a"
  let ?p2 = "final_entry (engine_with raising_agent) calm_env (ascii ''005930'') (ascii ''Samsung'') ?a"
  have look1: "progress_of ?S1 ?a = Some ?p1"
    using run_normal(3)[OF pool_ready_calm
        only_exceptions_answering(1)[of "ascii ''005930''" "ascii ''Samsung''"],
        where ?s0.0 = fresh_session and k = ?a]
    by (simp add: context_expert_in_engine)
  have st1: "status ?p1 = Completed"
    using executor_answering[of calm_env "ascii ''005930''" "ascii ''Samsung''"]
    by (auto simp add: final_entry_status context_expert_loaded)
  from progress_of_member[OF look1] obtain d where
    d: "parallel_progress ?S1 = Some d" "(?a, ?p1) \<in> set d" by blast
  have look2: "progress_of ?S2 ?a = Some ?p2"
    using run_normal(3)[OF pool_ready_calm
        only_exceptions_raising[of "ascii ''005930''" "ascii ''Samsung''"],
        where ?s0.0 = fresh_session and k = ?a]
    by (simp add: context_expert_in_engine)
  have st2: "status ?p2 = Error"
    by (simp add: final_entry_status context_expert_loaded executor_raising)
  from progress_invariant [of "engine_with answering_agent" calm_env "ascii ''005930''"
      "ascii ''Samsung''" fresh_session] look1 st1 context_expert_in_engine[of answering_agent]
  have c1: "end_time ?p1 \<noteq> None \<and> result_of ?S1 ?a \<noteq> None" by blast
  from progress_invariant [of "engine_with raising_agent" calm_env "ascii ''005930''"
      "ascii ''Samsung''" fresh_session] look2 st2 context_expert_in_engine[of raising_agent]
  have c2: "error ?p2 \<noteq> None" by blast
  show ?thesis
    using context_expert_in_engine no_foreign_progress_fresh d look1 st1 c1 look2 st2 c2
    by blast
qed



end
